theory Spec2Isabelle
  imports Main "HOL-Library.Word"
begin

section \<open>g2g: publishing expvars to a Graphite server\<close>

text \<open>
  A shallow embedding of \<^verbatim>\<open>g2g.go\<close>. The Go packages the file calls
  (\<^verbatim>\<open>time\<close>, \<^verbatim>\<open>net\<close>, \<^verbatim>\<open>fmt\<close>, \<^verbatim>\<open>log\<close>, \<^verbatim>\<open>expvar\<close>) are the
  environment: their calls are primitives over an explicit \<open>world\<close>, whose answers
  are arbitrary and whose effects are recorded in a trace. The functions of the file
  itself are translated statement by statement.
\<close>

subsection \<open>Time\<close>

text \<open>
  An instant is a number of nanoseconds since the Unix epoch. A \<^verbatim>\<open>time.Duration\<close>
  is a signed 64-bit count of nanoseconds. \<^verbatim>\<open>Time.Add\<close> moves an instant by a
  duration; \<^verbatim>\<open>Time.Sub\<close> returns the difference of two instants as a duration and,
  as the package documents, returns the largest (smallest) duration when the
  difference does not fit; \<^verbatim>\<open>Time.Unix\<close> is the number of whole seconds since the
  epoch.
\<close>

type_synonym time = int
type_synonym duration = "64 word"

definition maxDuration :: int where
  "maxDuration = 9223372036854775807"

definition minDuration :: int where
  "minDuration = - 9223372036854775808"

definition time_Add :: "time \<Rightarrow> duration \<Rightarrow> time" where
  "time_Add t d = t + sint d"

definition time_Sub :: "time \<Rightarrow> time \<Rightarrow> duration" where
  "time_Sub t u =
     (if maxDuration < t - u then word_of_int maxDuration
      else if t - u < minDuration then word_of_int minDuration
      else word_of_int (t - u))"

definition time_Unix :: "time \<Rightarrow> int" where
  "time_Unix t = t div 1000000000"

subsection \<open>Formatting\<close>

text \<open>The verb \<^verbatim>\<open>%d\<close>: decimal digits, most significant first, a minus sign for a
  negative number. The verbs \<^verbatim>\<open>%s\<close> and \<^verbatim>\<open>%v\<close> copy a string as it is.\<close>

definition digit :: "nat \<Rightarrow> char" where
  "digit n = ''0123456789'' ! n"

function fmt_nat :: "nat \<Rightarrow> string" where
  "fmt_nat n = (if n < 10 then [digit n] else fmt_nat (n div 10) @ [digit (n mod 10)])"
  by pat_completeness auto
termination
  by (relation "measure (\<lambda>n. n)") auto

declare fmt_nat.simps [simp del]

definition fmt_d :: "int \<Rightarrow> string" where
  "fmt_d i = (if i < 0 then CHR ''-'' # fmt_nat (nat (- i)) else fmt_nat (nat i))"

text \<open>\<^verbatim>\<open>fmt.Sprintf("%s %s %d\n", name, value, ts)\<close>\<close>

definition Sprintf_line :: "string \<Rightarrow> string \<Rightarrow> int \<Rightarrow> string" where
  "Sprintf_line name value ts = name @ '' '' @ value @ '' '' @ fmt_d ts @ [CHR 0x0A]"

text \<open>\<^verbatim>\<open>fmt.Errorf("%s = %v: short write: %d/%d", name, value, n, len(b))\<close>\<close>

definition Sprintf_short_write :: "string \<Rightarrow> string \<Rightarrow> int \<Rightarrow> int \<Rightarrow> string" where
  "Sprintf_short_write name value n l =
     name @ '' = '' @ value @ '': short write: '' @ fmt_d n @ ''/'' @ fmt_d l"

text \<open>\<^verbatim>\<open>log.Printf("g2g: %s: %s", name, err)\<close>\<close>

definition Sprintf_log :: "string \<Rightarrow> string \<Rightarrow> string" where
  "Sprintf_log name err = ''g2g: '' @ name @ '': '' @ err"

subsection \<open>Connections, variables, errors\<close>

text \<open>
  A \<^verbatim>\<open>net.Conn\<close> that is not nil and an \<^verbatim>\<open>expvar.Var\<close> are handles of objects that
  live outside the program. An \<^verbatim>\<open>expvar.Var\<close> is a capability to render a value
  as text (\<^verbatim>\<open>String()\<close>); the text may differ from call to call. A registered
  variable is such a capability: a nil interface value, or a \<^verbatim>\<open>String\<close> method that
  panics or does not return, is not a value of \<open>var\<close>. An error of the
  \<^verbatim>\<open>net\<close> package (from \<^verbatim>\<open>Dial\<close>, \<^verbatim>\<open>SetWriteDeadline\<close>, \<^verbatim>\<open>Write\<close>) is a value of
  its own type, with a message; \<^verbatim>\<open>fmt.Errorf\<close> makes an error of another type from
  a formatted message.
\<close>

datatype conn = Conn nat
datatype var = Var nat
datatype net_error = NetError string

datatype error = Net net_error | Errorf string

fun Error_text :: "error \<Rightarrow> string" where
  "Error_text (Net (NetError m)) = m"
| "Error_text (Errorf m) = m"

text \<open>What a Go function call comes to: it returns, or it panics.\<close>

datatype 'a outcome = Returned 'a | Panic

subsection \<open>The world\<close>

text \<open>
  The trace lists what the program did to its environment, oldest first, each
  network call with its result. \<open>Call_postOne\<close> marks an entry into \<open>postOne\<close>
  (one attempt to send one metric); \<open>Go_loop\<close> is the statement \<^verbatim>\<open>go g.loop()\<close>.
\<close>

datatype event =
    Dial string "net_error + conn"
  | SetWriteDeadline conn time "net_error option"
  | Write conn string "int \<times> net_error option"
  | Close conn
  | Log string
  | Go_loop
  | Call_postOne string string

text \<open>
  The world answers every call. \<open>tick\<close> counts the calls made so far; the answer
  to a call is read from the oracle of its kind at the current tick, so a world is
  one arbitrary but fixed behaviour of clock, network and variables. Every call
  takes \<open>lapse\<close> nanoseconds (any natural number): the clock never runs backwards.
\<close>

record world =
  now :: time
  tick :: nat
  lapse :: "nat \<Rightarrow> nat"
  dial_result :: "nat \<Rightarrow> net_error + conn"
  deadline_result :: "nat \<Rightarrow> net_error option"
  write_result :: "nat \<Rightarrow> int \<times> net_error option"
  string_result :: "nat \<Rightarrow> var \<Rightarrow> string"
  trace :: "event list"

definition elapse :: "world \<Rightarrow> world" where
  "elapse w = w\<lparr>now := now w + int (lapse w (tick w)), tick := Suc (tick w)\<rparr>"

definition emit :: "event \<Rightarrow> world \<Rightarrow> world" where
  "emit e w = w\<lparr>trace := trace w @ [e]\<rparr>"

definition time_Now :: "world \<Rightarrow> time \<times> world" where
  "time_Now w = (now (elapse w), elapse w)"

definition net_Dial :: "string \<Rightarrow> world \<Rightarrow> (net_error + conn) \<times> world" where
  "net_Dial ep w = (dial_result w (tick w), emit (Dial ep (dial_result w (tick w))) (elapse w))"

definition conn_SetWriteDeadline :: "conn \<Rightarrow> time \<Rightarrow> world \<Rightarrow> net_error option \<times> world" where
  "conn_SetWriteDeadline c t w =
     (deadline_result w (tick w), emit (SetWriteDeadline c t (deadline_result w (tick w))) (elapse w))"

definition conn_Write :: "conn \<Rightarrow> string \<Rightarrow> world \<Rightarrow> (int \<times> net_error option) \<times> world" where
  "conn_Write c b w = (write_result w (tick w), emit (Write c b (write_result w (tick w))) (elapse w))"

definition conn_Close :: "conn \<Rightarrow> world \<Rightarrow> world" where
  "conn_Close c w = emit (Close c) (elapse w)"

definition var_String :: "var \<Rightarrow> world \<Rightarrow> string \<times> world" where
  "var_String v w = (string_result w (tick w) v, elapse w)"

definition log_Printf :: "string \<Rightarrow> world \<Rightarrow> world" where
  "log_Printf msg w = emit (Log msg) w"

subsection \<open>The Graphite structure\<close>

text \<open>
  The fields of \<^verbatim>\<open>Graphite\<close>, but for the two channels, which are the way into the
  event loop and are modelled by the actions of the system below. A nil
  \<open>connection\<close> is \<open>None\<close>.
\<close>

record Graphite =
  endpoint :: string
  interval :: duration
  timeout :: duration
  lastPublish :: time
  connection :: "conn option"
  vars :: "string \<rightharpoonup> var"

datatype namedVar = NamedVar (nv_name: string) (nv_v: var)

subsection \<open>reconnect, postOne, postAll, nextPublishDelay\<close>

definition reconnect :: "Graphite \<Rightarrow> world \<Rightarrow> error option \<times> Graphite \<times> world" where
  "reconnect g w =
     (case net_Dial (endpoint g) w of
        (Inl err, w') \<Rightarrow> (Some (Net err), g, w')
      | (Inr c, w') \<Rightarrow> (None, g\<lparr>connection := Some c\<rparr>, w'))"

text \<open>Lines 103 to 113 of \<open>postOne\<close>, on the connection \<open>c\<close> that \<open>g.connection\<close> holds.\<close>

definition transmit ::
  "string \<Rightarrow> string \<Rightarrow> conn \<Rightarrow> Graphite \<Rightarrow> world \<Rightarrow> error option outcome \<times> Graphite \<times> world" where
  "transmit name value c g w =
     (case time_Now w of (t, w1) \<Rightarrow>
      (case conn_SetWriteDeadline c (time_Add t (timeout g)) w1 of
         (Some err, w2) \<Rightarrow> (Returned (Some (Net err)), g, w2)
       | (None, w2) \<Rightarrow>
          (case time_Now w2 of (t', w3) \<Rightarrow>
           (case conn_Write c (Sprintf_line name value (time_Unix t')) w3 of
              ((n, Some err), w4) \<Rightarrow> (Returned (Some (Net err)), g, w4)
            | ((n, None), w4) \<Rightarrow>
                if n \<noteq> int (length (Sprintf_line name value (time_Unix t')))
                then (Returned (Some (Errorf (Sprintf_short_write name value n
                        (int (length (Sprintf_line name value (time_Unix t'))))))), g, w4)
                else (Returned None, g, w4)))))"

text \<open>
  \<open>postOne\<close>: reconnect if the connection is nil, return the error if that fails;
  then use \<open>g.connection\<close>. Calling a method of a nil connection is a run-time panic.
\<close>

definition postOne ::
  "string \<Rightarrow> string \<Rightarrow> Graphite \<Rightarrow> world \<Rightarrow> error option outcome \<times> Graphite \<times> world" where
  "postOne name value g w =
     (case (if connection g = None then reconnect g (emit (Call_postOne name value) w)
            else (None, g, emit (Call_postOne name value) w)) of
        (Some err, g1, w1) \<Rightarrow> (Returned (Some err), g1, w1)
      | (None, g1, w1) \<Rightarrow>
          (case connection g1 of
             None \<Rightarrow> (Panic, g1, w1)
           | Some c \<Rightarrow> transmit name value c g1 w1))"

text \<open>
  The body of \<open>postAll\<close>'s \<^verbatim>\<open>range\<close> loop, over the entries of \<open>g.vars\<close> in the order
  \<open>kvs\<close> in which the loop visits them (Go leaves the order open; \<open>enumerates\<close>
  says what a \<^verbatim>\<open>range\<close> over a map guarantees: every entry, once).
\<close>

definition enumerates :: "(string \<times> var) list \<Rightarrow> (string \<rightharpoonup> var) \<Rightarrow> bool" where
  "enumerates kvs m \<longleftrightarrow> distinct (map fst kvs) \<and> map_of kvs = m"

fun range_vars ::
  "(string \<times> var) list \<Rightarrow> Graphite \<Rightarrow> world \<Rightarrow> unit outcome \<times> Graphite \<times> world" where
  "range_vars [] g w = (Returned (), g, w)"
| "range_vars ((name, v) # kvs) g w =
     (case var_String v w of (value, w1) \<Rightarrow>
      (case postOne name value g w1 of
         (Panic, g', w') \<Rightarrow> (Panic, g', w')
       | (Returned None, g', w') \<Rightarrow> range_vars kvs g' w'
       | (Returned (Some err), g', w') \<Rightarrow>
           range_vars kvs g' (log_Printf (Sprintf_log name (Error_text err)) w')))"

definition postAll ::
  "(string \<times> var) list \<Rightarrow> Graphite \<Rightarrow> world \<Rightarrow> unit outcome \<times> Graphite \<times> world" where
  "postAll kvs g w =
     (case range_vars kvs g w of
        (Panic, g', w') \<Rightarrow> (Panic, g', w')
      | (Returned u, g', w') \<Rightarrow>
          (case time_Now w' of (t, w'') \<Rightarrow> (Returned (), g'\<lparr>lastPublish := t\<rparr>, w'')))"

definition nextPublishDelay :: "Graphite \<Rightarrow> world \<Rightarrow> duration \<times> world" where
  "nextPublishDelay g w =
     (case time_Now w of (t, w') \<Rightarrow>
        (time_Sub (time_Add (lastPublish g) (interval g)) t, w'))"

subsection \<open>NewGraphite\<close>

definition NewGraphite ::
  "string \<Rightarrow> duration \<Rightarrow> duration \<Rightarrow> world \<Rightarrow> (error + Graphite) \<times> world" where
  "NewGraphite ep iv tmo w =
     (case time_Now w of (t, w1) \<Rightarrow>
      (case reconnect \<lparr>endpoint = ep, interval = iv, timeout = tmo, lastPublish = t,
                       connection = None, vars = Map.empty\<rparr> w1 of
         (Some err, g, w2) \<Rightarrow> (Inl err, w2)
       | (None, g, w2) \<Rightarrow> (Inr g, emit Go_loop w2)))"

subsection \<open>The event loop\<close>

text \<open>
  One iteration of \<open>loop\<close> is one \<^verbatim>\<open>select\<close>. Which case a \<^verbatim>\<open>select\<close> takes is
  the environment's choice among the ready ones, so an iteration is a function of
  that choice: a registration received, the timer's channel (with the order in
  which the pass will range over the map), or a shutdown request received.
\<close>

datatype select = Registration namedVar | Timer "(string \<times> var) list" | Shutdown_request

text \<open>
  Where the coordinator goroutine stands: blocked in the \<^verbatim>\<open>select\<close>; past
  \<^verbatim>\<open>g.connection = nil\<close> and blocked in \<^verbatim>\<open>q <- true\<close>; returned from \<open>loop\<close>; or
  stopped by a panic.
\<close>

datatype coord = Select | Acking | Exited | Crashed

text \<open>
  \<^verbatim>\<open>time.After(d)\<close> delivers on its channel once \<open>d\<close> has elapsed, at once when
  \<open>d\<close> is not positive, and the goroutine resumes some time later.
\<close>

definition time_After :: "duration \<Rightarrow> world \<Rightarrow> world" where
  "time_After d w = elapse (w\<lparr>now := now w + max 0 (sint d)\<rparr>)"

definition loop_select :: "select \<Rightarrow> Graphite \<Rightarrow> world \<Rightarrow> coord \<times> Graphite \<times> world" where
  "loop_select sel g w =
     (case nextPublishDelay g w of (d, w1) \<Rightarrow>
      (case sel of
         Registration nv \<Rightarrow> (Select, g\<lparr>vars := (vars g)(nv_name nv \<mapsto> nv_v nv)\<rparr>, elapse w1)
       | Timer kvs \<Rightarrow>
           (case postAll kvs g (time_After d w1) of
              (Panic, g', w') \<Rightarrow> (Crashed, g', w')
            | (Returned u, g', w') \<Rightarrow> (Select, g', w'))
       | Shutdown_request \<Rightarrow>
           (case connection g of
              None \<Rightarrow> (Crashed, g, elapse w1)
            | Some c \<Rightarrow> (Acking, g\<lparr>connection := None\<rparr>, conn_Close c (elapse w1)))))"

text \<open>
  The \<^verbatim>\<open>for\<close> loop of \<open>loop\<close>, run on the choices its \<^verbatim>\<open>select\<close>s take one after the
  other: it goes on while an iteration leaves it in the \<^verbatim>\<open>select\<close>, and with the
  choices used up it is blocked there.
\<close>

fun loop :: "select list \<Rightarrow> Graphite \<Rightarrow> world \<Rightarrow> coord \<times> Graphite \<times> world" where
  "loop [] g w = (Select, g, w)"
| "loop (sel # sels) g w =
     (case loop_select sel g w of
        (Select, g', w') \<Rightarrow> loop sels g' w'
      | (c, g', w') \<Rightarrow> (c, g', w'))"

subsection \<open>The coordinator and its callers\<close>

text \<open>
  \<open>registrations\<close> and \<open>shutdown\<close> are made by \<^verbatim>\<open>make(chan namedVar)\<close> and
  \<^verbatim>\<open>make(chan chan bool)\<close>, with no capacity: a send on such a channel completes
  only together with a receive. So a call of \<open>Register\<close> is blocked in its send
  (line 58) until a \<^verbatim>\<open>select\<close> of the loop receives its message, and returns then.
  A call of \<open>Shutdown\<close> is blocked in its send (line 65) until the loop receives the
  request, then in its receive (line 66) until the loop sends on \<open>q\<close>.

  The system: the structure, the world, where the coordinator stands, the calls of
  \<open>Register\<close> that are blocked in their send, the calls that have returned (in the
  order of their return), and the one call of \<open>Shutdown\<close>.
\<close>

datatype shutdown_call = Not_called | Sending_request | Awaiting_ack | Shutdown_returned

record system =
  handle :: Graphite
  env :: world
  coordinator :: coord
  blocked :: "namedVar list"
  returned :: "namedVar list"
  stopper :: shutdown_call

datatype action =
    Call_Register namedVar
  | Call_Shutdown
  | Recv_registration namedVar
  | Timer_fires "(string \<times> var) list"
  | Recv_shutdown
  | Send_ack

text \<open>One step of the system; \<open>None\<close> when the action cannot happen in the state.\<close>

definition coordinate :: "select \<Rightarrow> system \<Rightarrow> system" where
  "coordinate sel s =
     (case loop_select sel (handle s) (env s) of
        (c, g, w) \<Rightarrow> s\<lparr>handle := g, env := w, coordinator := c\<rparr>)"

fun step :: "action \<Rightarrow> system \<Rightarrow> system option" where
  "step (Call_Register nv) s = Some (s\<lparr>blocked := blocked s @ [nv]\<rparr>)"
| "step Call_Shutdown s =
     (if stopper s = Not_called then Some (s\<lparr>stopper := Sending_request\<rparr>) else None)"
| "step (Recv_registration nv) s =
     (if coordinator s = Select \<and> nv \<in> set (blocked s)
      then Some ((coordinate (Registration nv) s)
                   \<lparr>blocked := remove1 nv (blocked s), returned := returned s @ [nv]\<rparr>)
      else None)"
| "step (Timer_fires kvs) s =
     (if coordinator s = Select \<and> enumerates kvs (vars (handle s))
      then Some (coordinate (Timer kvs) s)
      else None)"
| "step Recv_shutdown s =
     (if coordinator s = Select \<and> stopper s = Sending_request
      then Some ((coordinate Shutdown_request s)\<lparr>stopper := Awaiting_ack\<rparr>)
      else None)"
| "step Send_ack s =
     (if coordinator s = Acking \<and> stopper s = Awaiting_ack
      then Some (s\<lparr>coordinator := Exited, stopper := Shutdown_returned\<rparr>)
      else None)"

fun run :: "action list \<Rightarrow> system \<Rightarrow> system option" where
  "run [] s = Some s"
| "run (a # as) s = (case step a s of None \<Rightarrow> None | Some s' \<Rightarrow> run as s')"

text \<open>The system right after a successful \<open>NewGraphite\<close>: the loop is in its first
  \<^verbatim>\<open>select\<close>, nobody has called anything.\<close>

definition started :: "Graphite \<Rightarrow> world \<Rightarrow> system" where
  "started g w = \<lparr>handle = g, env = w, coordinator = Select, blocked = [], returned = [],
                  stopper = Not_called\<rparr>"

subsection \<open>Vocabulary of the properties\<close>

text \<open>The events a call added to the trace; the connection an event is on.\<close>

definition new_events :: "world \<Rightarrow> world \<Rightarrow> event list" where
  "new_events w w' = drop (length (trace w)) (trace w')"

fun conn_of :: "event \<Rightarrow> conn option" where
  "conn_of (SetWriteDeadline c t r) = Some c"
| "conn_of (Write c b r) = Some c"
| "conn_of (Close c) = Some c"
| "conn_of e = None"

fun is_Write :: "event \<Rightarrow> bool" where
  "is_Write (Write c b r) = True"
| "is_Write e = False"

fun is_Dial :: "event \<Rightarrow> bool" where
  "is_Dial (Dial ep r) = True"
| "is_Dial e = False"

text \<open>Reading a decimal numeral back, to say that \<open>fmt_d\<close> writes decimal.\<close>

definition read_nat :: "string \<Rightarrow> nat" where
  "read_nat cs = foldl (\<lambda>n c. 10 * n + (of_char c - 48)) 0 cs"

definition read_d :: "string \<Rightarrow> int" where
  "read_d cs =
     (case cs of
        [] \<Rightarrow> 0
      | c # ds \<Rightarrow> if c = CHR ''-'' then - int (read_nat ds) else int (read_nat cs))"

text \<open>What \<open>postOne\<close> returns after its \<^verbatim>\<open>Write\<close> answered \<open>res\<close> (lines 108 to 113).\<close>

definition sent :: "string \<Rightarrow> string \<Rightarrow> int \<Rightarrow> int \<times> net_error option \<Rightarrow> error option outcome" where
  "sent name val ts res =
     (case res of
        (n, Some e) \<Rightarrow> Returned (Some (Net e))
      | (n, None) \<Rightarrow>
          if n \<noteq> int (length (Sprintf_line name val ts))
          then Returned (Some (Errorf (Sprintf_short_write name val n
                 (int (length (Sprintf_line name val ts))))))
          else Returned None)"

text \<open>The names whose send a trace shows entered, the messages it shows logged, and
  the number of writes in it that took their whole line.\<close>

fun attempted :: "event list \<Rightarrow> string list" where
  "attempted [] = []"
| "attempted (Call_postOne name val # es) = name # attempted es"
| "attempted (e # es) = attempted es"

fun logged :: "event list \<Rightarrow> string list" where
  "logged [] = []"
| "logged (Log m # es) = m # logged es"
| "logged (e # es) = logged es"

fun delivered :: "event list \<Rightarrow> nat" where
  "delivered [] = 0"
| "delivered (Write c b (n, None) # es) = (if n = int (length b) then 1 else 0) + delivered es"
| "delivered (e # es) = delivered es"

text \<open>The registrations among the choices that come before the first shutdown request,
  and the value of the most recent registration under a name.\<close>

fun processed :: "select list \<Rightarrow> namedVar list" where
  "processed [] = []"
| "processed (Registration nv # sels) = nv # processed sels"
| "processed (Timer kvs # sels) = processed sels"
| "processed (Shutdown_request # sels) = []"

fun latest :: "string \<Rightarrow> namedVar list \<Rightarrow> var option" where
  "latest name [] = None"
| "latest name (nv # nvs) =
     (case latest name nvs of
        Some v \<Rightarrow> Some v
      | None \<Rightarrow> if nv_name nv = name then Some (nv_v nv) else None)"

text \<open>
  What holds of the system as long as it runs from a state where the loop is in its
  \<^verbatim>\<open>select\<close> with connection \<open>c\<close> and \<open>Shutdown\<close> has not been called.
\<close>

definition closed_last :: "conn \<Rightarrow> system \<Rightarrow> bool" where
  "closed_last c s \<longleftrightarrow> trace (env s) \<noteq> [] \<and> last (trace (env s)) = Close c \<and>
     connection (handle s) = None"

definition sys_inv :: "conn \<Rightarrow> system \<Rightarrow> bool" where
  "sys_inv c s \<longleftrightarrow>
     (case coordinator s of
        Select \<Rightarrow> connection (handle s) = Some c \<and>
                  (stopper s = Not_called \<or> stopper s = Sending_request)
      | Acking \<Rightarrow> stopper s = Awaiting_ack \<and> closed_last c s
      | Exited \<Rightarrow> stopper s = Shutdown_returned \<and> closed_last c s
      | Crashed \<Rightarrow> False)"

subsection \<open>Concrete inputs\<close>

text \<open>
  A structure for the endpoint \<^verbatim>\<open>stats:2003\<close> with an interval of ten seconds and a
  timeout of one; a world where every call takes a microsecond, every dial gives
  connection 1 and every write takes the 20 bytes of the line; and worlds that differ
  from it by a refused dial, a write of 7 bytes, a write that fails.
\<close>

definition example_graphite :: Graphite where
  "example_graphite = \<lparr>endpoint = ''stats:2003'', interval = 10000000000, timeout = 1000000000,
     lastPublish = 1700000000000000000, connection = None, vars = Map.empty\<rparr>"

definition connected_graphite :: Graphite where
  "connected_graphite = example_graphite\<lparr>connection := Some (Conn 1)\<rparr>"

definition example_world :: world where
  "example_world = \<lparr>now = 1700000000000000000, tick = 0, lapse = (\<lambda>k. 1000),
     dial_result = (\<lambda>k. Inr (Conn 1)), deadline_result = (\<lambda>k. None),
     write_result = (\<lambda>k. (20, None)), string_result = (\<lambda>k v. ''0.5''), trace = []\<rparr>"

definition unreachable_world :: world where
  "unreachable_world = example_world\<lparr>dial_result := (\<lambda>k. Inl (NetError ''connection refused''))\<rparr>"

definition short_world :: world where
  "short_world = example_world\<lparr>write_result := (\<lambda>k. (7, None))\<rparr>"

definition broken_world :: world where
  "broken_world = example_world\<lparr>write_result := (\<lambda>k. (0, Some (NetError ''broken pipe'')))\<rparr>"

text \<open>A registry of two variables, and a world whose first write fails and whose later
  writes take 20 bytes.\<close>

definition two_vars :: "string \<rightharpoonup> var" where
  "two_vars = map_of [(''load'', Var 1), (''mem'', Var 2)]"

definition flaky_world :: world where
  "flaky_world = example_world\<lparr>write_result :=
     (\<lambda>k. if k = 4 then (0, Some (NetError ''broken pipe'')) else (20, None))\<rparr>"

text \<open>A structure whose interval is the smallest duration.\<close>

definition backward_graphite :: Graphite where
  "backward_graphite = connected_graphite\<lparr>interval := - 9223372036854775808\<rparr>"

text \<open>A system whose loop is in its \<^verbatim>\<open>select\<close> with connection 1, and what it has come to
  when \<open>Shutdown\<close> has been called and has returned and \<open>Register\<close> has been called
  after that.\<close>

definition load_var :: namedVar where
  "load_var = NamedVar ''load'' (Var 1)"

definition live_system :: system where
  "live_system = started connected_graphite example_world"

definition stopped_system :: system where
  "stopped_system =
     \<lparr>handle = example_graphite,
      env = example_world\<lparr>tick := 3, now := 1700000000000003000, trace := [Close (Conn 1)]\<rparr>,
      coordinator = Exited, blocked = [load_var], returned = [],
      stopper = Shutdown_returned\<rparr>"

section \<open>Properties\<close>

subsection \<open>The primitives\<close>

lemma elapse_simps [simp]:
  "trace (elapse w) = trace w" "tick (elapse w) = Suc (tick w)"
  "now (elapse w) = now w + int (lapse w (tick w))"
  "lapse (elapse w) = lapse w" "dial_result (elapse w) = dial_result w"
  "deadline_result (elapse w) = deadline_result w" "write_result (elapse w) = write_result w"
  "string_result (elapse w) = string_result w"
  by (simp_all add: elapse_def)

lemma emit_simps [simp]:
  "trace (emit e w) = trace w @ [e]" "tick (emit e w) = tick w"
  "now (emit e w) = now w"
  "lapse (emit e w) = lapse w" "dial_result (emit e w) = dial_result w"
  "deadline_result (emit e w) = deadline_result w" "write_result (emit e w) = write_result w"
  "string_result (emit e w) = string_result w"
  by (simp_all add: emit_def)

lemmas prim_defs = time_Now_def net_Dial_def conn_SetWriteDeadline_def conn_Write_def
  conn_Close_def var_String_def log_Printf_def

lemmas run_defs = postOne_def reconnect_def transmit_def prim_defs elapse_def emit_def
  time_Add_def time_Unix_def Sprintf_line_def Sprintf_short_write_def Sprintf_log_def fmt_d_def
  fmt_nat.simps digit_def new_events_def

lemma new_events_append: "trace w' = trace w @ evs \<Longrightarrow> new_events w w' = evs"
  by (simp add: new_events_def)

subsection \<open>Decimal numerals\<close>

lemma digit_code: "n < 10 \<Longrightarrow> of_char (digit n) = 48 + n \<and> digit n \<in> set ''0123456789''"
proof -
  assume "n < 10"
  then have "n \<in> {0, 1, 2, 3, 4, 5, 6, 7, 8, 9}" by auto
  then show ?thesis by (auto simp: digit_def)
qed

lemma read_nat_snoc: "read_nat (cs @ [c]) = 10 * read_nat cs + (of_char c - 48)"
  by (simp add: read_nat_def)

lemma read_fmt_nat: "read_nat (fmt_nat n) = n"
proof (induction n rule: fmt_nat.induct)
  case (1 n)
  show ?case
  proof (cases "n < 10")
    case True
    then show ?thesis
      using digit_code[of n] by (subst fmt_nat.simps) (simp add: read_nat_def)
  next
    case False
    then show ?thesis
      using 1 digit_code[of "n mod 10"]
      by (subst fmt_nat.simps) (simp add: read_nat_snoc)
  qed
qed

lemma fmt_nat_digits: "fmt_nat n \<noteq> [] \<and> set (fmt_nat n) \<subseteq> set ''0123456789''"
proof (induction n rule: fmt_nat.induct)
  case (1 n)
  show ?case
  proof (cases "n < 10")
    case True
    then show ?thesis
      using digit_code[of n] by (subst (1 2) fmt_nat.simps) simp
  next
    case False
    then show ?thesis
      using 1 digit_code[of "n mod 10"]
      by (subst (1 2) fmt_nat.simps) simp
  qed
qed

lemma read_fmt_d: "read_d (fmt_d i) = i"
proof (cases "i < 0")
  case True
  then show ?thesis by (simp add: read_d_def fmt_d_def read_fmt_nat)
next
  case False
  obtain c cs where cs: "fmt_nat (nat i) = c # cs"
    using fmt_nat_digits[of "nat i"] by (cases "fmt_nat (nat i)") auto
  have "c \<in> set ''0123456789''"
    using fmt_nat_digits[of "nat i"] cs by simp
  then have "c \<noteq> CHR ''-''" by auto
  moreover have "read_nat (c # cs) = nat i"
    using read_fmt_nat[of "nat i"] cs by simp
  ultimately show ?thesis
    using False cs by (simp add: read_d_def fmt_d_def)
qed

subsection \<open>One send\<close>

lemma transmit_outcomes:
  assumes "transmit name value c g w = (r, g', w')"
  shows "g' = g \<and> now w \<le> now w' \<and>
    ((\<exists>e t. r = Returned (Some (Net e)) \<and> trace w' = trace w @ [SetWriteDeadline c t (Some e)])
     \<or> (\<exists>t t' n err. trace w' = trace w @
            [SetWriteDeadline c t None, Write c (Sprintf_line name value (time_Unix t')) (n, err)]
          \<and> now w \<le> t' \<and> t' \<le> now w'
          \<and> r = (case err of Some e \<Rightarrow> Returned (Some (Net e))
                 | None \<Rightarrow> if n \<noteq> int (length (Sprintf_line name value (time_Unix t')))
                     then Returned (Some (Errorf (Sprintf_short_write name value n
                            (int (length (Sprintf_line name value (time_Unix t')))))))
                     else Returned None)))"
proof (cases "deadline_result w (Suc (tick w))")
  case (Some e)
  with assms show ?thesis
    by (auto simp: transmit_def prim_defs)
next
  case None
  obtain n err where wr: "write_result w (Suc (Suc (Suc (tick w)))) = (n, err)"
    by (cases "write_result w (Suc (Suc (Suc (tick w))))") auto
  let ?t' = "now w + int (lapse w (tick w)) + int (lapse w (Suc (tick w))) + int (lapse w (Suc (Suc (tick w))))"
  have tr: "trace w' = trace w @ [SetWriteDeadline c (time_Add (now w + int (lapse w (tick w))) (timeout g)) None,
       Write c (Sprintf_line name value (time_Unix ?t')) (n, err)]"
    using assms None wr
    by (auto simp: transmit_def prim_defs split: option.splits if_splits)
  have r: "r = (case err of Some e \<Rightarrow> Returned (Some (Net e))
                 | None \<Rightarrow> if n \<noteq> int (length (Sprintf_line name value (time_Unix ?t')))
                     then Returned (Some (Errorf (Sprintf_short_write name value n
                            (int (length (Sprintf_line name value (time_Unix ?t')))))))
                     else Returned None)"
    using assms None wr
    by (auto simp: transmit_def prim_defs split: option.splits if_splits)
  have rest: "g' = g \<and> now w \<le> ?t' \<and> ?t' \<le> now w'"
    using assms None wr
    by (auto simp: transmit_def prim_defs split: option.splits if_splits)
  show ?thesis
  proof -
    from rest have "now w \<le> now w'" by linarith
    with tr r rest show ?thesis by blast
  qed
qed

lemma transmit_events:
  assumes "transmit name value c g w = (r, g', w')"
  shows "g' = g \<and> r \<noteq> Panic \<and> now w \<le> now w' \<and>
         (\<exists>evs. trace w' = trace w @ evs \<and> evs \<noteq> [] \<and> (\<forall>e\<in>set evs. conn_of e = Some c))"
  using transmit_outcomes[OF assms] by (auto split: option.splits if_splits)

lemma postOne_Some:
  "connection g = Some c \<Longrightarrow>
   postOne name value g w = transmit name value c g (emit (Call_postOne name value) w)"
  by (simp add: postOne_def)

lemma postOne_None_Inl:
  "connection g = None \<Longrightarrow> dial_result w (tick w) = Inl e \<Longrightarrow>
   postOne name value g w =
     (Returned (Some (Net e)), g,
      emit (Dial (endpoint g) (Inl e)) (elapse (emit (Call_postOne name value) w)))"
  by (simp add: postOne_def reconnect_def net_Dial_def)

lemma postOne_None_Inr:
  "connection g = None \<Longrightarrow> dial_result w (tick w) = Inr c \<Longrightarrow>
   postOne name value g w =
     transmit name value c (g\<lparr>connection := Some c\<rparr>)
       (emit (Dial (endpoint g) (Inr c)) (elapse (emit (Call_postOne name value) w)))"
  by (simp add: postOne_def reconnect_def net_Dial_def)

lemma postOne_Some_events:
  assumes "connection g = Some c" and "postOne name val g w = (r, g', w')"
  shows "g' = g \<and> r \<noteq> Panic \<and>
         (\<exists>evs. new_events w w' = Call_postOne name val # evs \<and> evs \<noteq> [] \<and>
                (\<forall>e\<in>set evs. conn_of e = Some c))"
proof -
  from assms have "transmit name val c g (emit (Call_postOne name val) w) = (r, g', w')"
    by (simp add: postOne_Some)
  from transmit_events[OF this] show ?thesis
    by (auto simp: new_events_def)
qed

lemma postOne_outcomes:
  assumes "postOne name val g w = (r, g', w')"
  shows "((\<exists>e. r = Returned (Some (Net e))) \<and> (\<forall>e\<in>set (new_events w w'). \<not> is_Write e))
       \<or> (\<exists>pre c t t' res. new_events w w' =
              pre @ [SetWriteDeadline c t None, Write c (Sprintf_line name val (time_Unix t')) res]
            \<and> (\<forall>e\<in>set pre. \<not> is_Write e) \<and> connection g' = Some c
            \<and> now w \<le> t' \<and> t' \<le> now w' \<and> r = sent name val (time_Unix t') res)"
proof -
  let ?w0 = "emit (Call_postOne name val) w"
  let ?w1 = "emit (Dial (endpoint g) (dial_result w (tick w))) (elapse ?w0)"
  consider (fail) e where "connection g = None" "dial_result w (tick w) = Inl e"
    | (dialed) c where "connection g = None" "dial_result w (tick w) = Inr c"
    | (kept) c where "connection g = Some c"
    by (cases "connection g"; cases "dial_result w (tick w)") auto
  then show ?thesis
  proof cases
    case fail
    with assms show ?thesis
      by (auto simp: postOne_None_Inl new_events_def)
  next
    case dialed
    with assms have t: "transmit name val c (g\<lparr>connection := Some c\<rparr>) ?w1 = (r, g', w')"
      by (simp add: postOne_None_Inr)
    from transmit_outcomes[OF t] show ?thesis
    proof (elim conjE disjE exE)
      fix e t assume "r = Returned (Some (Net e))"
        "trace w' = trace ?w1 @ [SetWriteDeadline c t (Some e)]"
      then show ?thesis by (auto simp: new_events_def)
    next
      fix t t' n err
      assume a: "g' = g\<lparr>connection := Some c\<rparr>" "now ?w1 \<le> t'" "t' \<le> now w'"
        "trace w' = trace ?w1 @ [SetWriteDeadline c t None, Write c (Sprintf_line name val (time_Unix t')) (n, err)]"
        "r = (case err of None \<Rightarrow> if n \<noteq> int (length (Sprintf_line name val (time_Unix t')))
               then Returned (Some (Errorf (Sprintf_short_write name val n
                      (int (length (Sprintf_line name val (time_Unix t')))))))
               else Returned None
             | Some e \<Rightarrow> Returned (Some (Net e)))"
      have "new_events w w' = [Call_postOne name val, Dial (endpoint g) (dial_result w (tick w))]
              @ [SetWriteDeadline c t None, Write c (Sprintf_line name val (time_Unix t')) (n, err)]"
        using a by (simp add: new_events_def)
      moreover have "r = sent name val (time_Unix t') (n, err)"
        using a by (simp add: sent_def split: option.splits)
      moreover have "now w \<le> t'" using a by simp
      ultimately show ?thesis using a by (intro disjI2 exI conjI) (assumption | simp)+
    qed
  next
    case kept
    with assms have t: "transmit name val c g ?w0 = (r, g', w')"
      by (simp add: postOne_Some)
    from transmit_outcomes[OF t] show ?thesis
    proof (elim conjE disjE exE)
      fix e t assume "r = Returned (Some (Net e))"
        "trace w' = trace ?w0 @ [SetWriteDeadline c t (Some e)]"
      then show ?thesis by (auto simp: new_events_def)
    next
      fix t t' n err
      assume a: "g' = g" "now ?w0 \<le> t'" "t' \<le> now w'"
        "trace w' = trace ?w0 @ [SetWriteDeadline c t None, Write c (Sprintf_line name val (time_Unix t')) (n, err)]"
        "r = (case err of None \<Rightarrow> if n \<noteq> int (length (Sprintf_line name val (time_Unix t')))
               then Returned (Some (Errorf (Sprintf_short_write name val n
                      (int (length (Sprintf_line name val (time_Unix t')))))))
               else Returned None
             | Some e \<Rightarrow> Returned (Some (Net e)))"
      have "new_events w w' = [Call_postOne name val]
              @ [SetWriteDeadline c t None, Write c (Sprintf_line name val (time_Unix t')) (n, err)]"
        using a by (simp add: new_events_def)
      moreover have "r = sent name val (time_Unix t') (n, err)"
        using a by (simp add: sent_def split: option.splits)
      moreover have "now w \<le> t'" using a by simp
      ultimately show ?thesis using a kept by (intro disjI2 exI conjI) (assumption | simp)+
    qed
  qed
qed

lemma filter_no_Write: "(\<forall>e\<in>set pre. \<not> is_Write e) \<Longrightarrow> filter is_Write pre = []"
  by (induction pre) auto

lemma conn_of_not_Dial: "conn_of e = Some c \<Longrightarrow> \<not> is_Dial e"
  by (cases e) auto

lemma postOne_None_events:
  assumes "connection g = None" and "postOne name val g w = (r, g', w')"
  shows "\<exists>evs. new_events w w' =
              Call_postOne name val # Dial (endpoint g) (dial_result w (tick w)) # evs
       \<and> (case dial_result w (tick w) of
             Inl e \<Rightarrow> r = Returned (Some (Net e)) \<and> evs = [] \<and> g' = g
           | Inr c \<Rightarrow> g' = g\<lparr>connection := Some c\<rparr> \<and> evs \<noteq> [] \<and>
                       (\<forall>e\<in>set evs. conn_of e = Some c))"
proof (cases "dial_result w (tick w)")
  case (Inl e)
  with assms show ?thesis
    by (auto simp: postOne_None_Inl new_events_def)
next
  case (Inr c)
  with assms have "transmit name val c (g\<lparr>connection := Some c\<rparr>)
      (emit (Dial (endpoint g) (Inr c)) (elapse (emit (Call_postOne name val) w))) = (r, g', w')"
    by (simp add: postOne_None_Inr)
  from transmit_events[OF this] Inr show ?thesis
    by (auto simp: new_events_def)
qed

text \<open>
  C6. A send that finds no connection dials once, before anything else. If the dial
  fails, the send returns the dial's error and has done nothing more: no deadline, no
  write, no second dial; the structure is unchanged. If the dial succeeds, the new
  connection is stored and everything the send does next (at least the deadline) is
  on that connection; there is no other dial.
\<close>

theorem postOne_reconnects_once:
  assumes "connection g = None"
  shows "case postOne name val g w of (r, g', w') \<Rightarrow>
          \<exists>evs. new_events w w' =
                  Call_postOne name val # Dial (endpoint g) (dial_result w (tick w)) # evs
           \<and> (case dial_result w (tick w) of
                 Inl e \<Rightarrow> r = Returned (Some (Net e)) \<and> evs = [] \<and> g' = g
               | Inr c \<Rightarrow> g' = g\<lparr>connection := Some c\<rparr> \<and> evs \<noteq> [] \<and>
                           (\<forall>e\<in>set evs. conn_of e = Some c))"
proof -
  obtain r g' w' where p: "postOne name val g w = (r, g', w')"
    by (cases "postOne name val g w") auto
  show ?thesis
    unfolding p prod.case using postOne_None_events[OF assms p] .
qed

theorem postOne_reconnects_once_witness:
  "connection example_graphite = None
   \<and> postOne ''load'' ''0.5'' example_graphite unreachable_world =
       (Returned (Some (Net (NetError ''connection refused''))), example_graphite,
        unreachable_world\<lparr>tick := 1, now := 1700000000000001000, trace :=
          [Call_postOne ''load'' ''0.5'', Dial ''stats:2003'' (Inl (NetError ''connection refused''))]\<rparr>)
   \<and> postOne ''load'' ''0.5'' example_graphite example_world =
       (Returned None, connected_graphite,
        example_world\<lparr>tick := 5, now := 1700000000000005000, trace :=
          [Call_postOne ''load'' ''0.5'', Dial ''stats:2003'' (Inr (Conn 1)),
           SetWriteDeadline (Conn 1) 1700000001000002000 None,
           Write (Conn 1) (''load 0.5 1700000000'' @ [CHR 0x0A]) (20, None)]\<rparr>)"
  using postOne_reconnects_once[where g = example_graphite and w = unreachable_world
          and name = "''load''" and val = "''0.5''"]
        postOne_reconnects_once[where g = example_graphite and w = example_world
          and name = "''load''" and val = "''0.5''"]
  by (simp add: connected_graphite_def example_graphite_def example_world_def
        unreachable_world_def run_defs)

text \<open>
  C7. Dialling happens in a send exactly when the structure holds no connection.
  Whatever a send does on a connection (setting the deadline, writing), that
  connection is the one the structure holds afterwards, also when the call failed.
  A send that starts with a connection leaves the whole structure as it was,
  whatever it returns, and uses only that connection; so does the send after it.
\<close>

theorem postOne_keeps_connection:
  "case postOne name val g w of (r, g', w') \<Rightarrow>
     ((\<exists>e\<in>set (new_events w w'). is_Dial e) \<longleftrightarrow> connection g = None)
   \<and> (\<forall>e\<in>set (new_events w w'). \<forall>c. conn_of e = Some c \<longrightarrow> connection g' = Some c)
   \<and> (\<forall>c. connection g = Some c \<longrightarrow>
         g' = g \<and> (\<forall>e\<in>set (tl (new_events w w')). conn_of e = Some c)
       \<and> (case postOne next_name next_val g' w_next of (r_next, g_next, w_next') \<Rightarrow>
            g_next = g \<and> (\<forall>e\<in>set (tl (new_events w_next w_next')). conn_of e = Some c)))"
proof -
  obtain r g' w' where p: "postOne name val g w = (r, g', w')"
    by (cases "postOne name val g w") auto
  have "((\<exists>e\<in>set (new_events w w'). is_Dial e) \<longleftrightarrow> connection g = None)
   \<and> (\<forall>e\<in>set (new_events w w'). \<forall>c. conn_of e = Some c \<longrightarrow> connection g' = Some c)
   \<and> (\<forall>c. connection g = Some c \<longrightarrow>
         g' = g \<and> (\<forall>e\<in>set (tl (new_events w w')). conn_of e = Some c)
       \<and> (case postOne next_name next_val g' w_next of (r_next, g_next, w_next') \<Rightarrow>
            g_next = g \<and> (\<forall>e\<in>set (tl (new_events w_next w_next')). conn_of e = Some c)))"
  proof (cases "connection g")
    case None
    from postOne_None_events[OF None p] show ?thesis
      using None by (cases "dial_result w (tick w)") auto
  next
    case (Some c)
    obtain r_next g_next w_next' where q: "postOne next_name next_val g w_next = (r_next, g_next, w_next')"
      by (cases "postOne next_name next_val g w_next") auto
    from postOne_Some_events[OF Some p] postOne_Some_events[OF Some q] Some q
    show ?thesis by (auto dest: conn_of_not_Dial)
  qed
  then show ?thesis unfolding p prod.case .
qed

theorem postOne_keeps_connection_witness:
  "connection connected_graphite = Some (Conn 1)
   \<and> postOne ''load'' ''0.5'' connected_graphite broken_world =
       (Returned (Some (Net (NetError ''broken pipe''))), connected_graphite,
        broken_world\<lparr>tick := 4, now := 1700000000000004000, trace :=
          [Call_postOne ''load'' ''0.5'',
           SetWriteDeadline (Conn 1) 1700000001000001000 None,
           Write (Conn 1) (''load 0.5 1700000000'' @ [CHR 0x0A]) (0, Some (NetError ''broken pipe''))]\<rparr>)"
  using postOne_keeps_connection[where g = connected_graphite and w = broken_world
          and name = "''load''" and val = "''0.5''" and next_name = "''load''" and next_val = "''0.5''"
          and w_next = broken_world]
  by (simp add: connected_graphite_def example_graphite_def example_world_def broken_world_def run_defs)

text \<open>
  C8. When the write of a send answers without an error but with fewer bytes than the
  line has, the send returns the error made by \<^verbatim>\<open>fmt.Errorf\<close> with the short-write
  message: not nil, and not an error of the network. That write is the only write of
  the send and the last thing it does: the rest of the line is not written.
\<close>

theorem postOne_short_write:
  "case postOne name val g w of (r, g', w') \<Rightarrow>
     \<forall>c b n. Write c b (n, None) \<in> set (new_events w w') \<and> n < int (length b) \<longrightarrow>
        r = Returned (Some (Errorf (Sprintf_short_write name val n (int (length b)))))
        \<and> r \<noteq> Returned None \<and> (\<forall>e. r \<noteq> Returned (Some (Net e)))
        \<and> filter is_Write (new_events w w') = [Write c b (n, None)]
        \<and> last (new_events w w') = Write c b (n, None)"
proof -
  obtain r g' w' where p: "postOne name val g w = (r, g', w')"
    by (cases "postOne name val g w") auto
  have main: "r = Returned (Some (Errorf (Sprintf_short_write name val n (int (length b)))))
        \<and> r \<noteq> Returned None \<and> (\<forall>e. r \<noteq> Returned (Some (Net e)))
        \<and> filter is_Write (new_events w w') = [Write c b (n, None)]
        \<and> last (new_events w w') = Write c b (n, None)"
    if wr: "Write c b (n, None) \<in> set (new_events w w')" and short: "n < int (length b)" for c b n
    using postOne_outcomes[OF p]
  proof (elim disjE conjE exE)
    assume "\<forall>e\<in>set (new_events w w'). \<not> is_Write e"
    with wr show ?thesis by auto
  next
    fix pre c' t t' res
    assume a: "new_events w w' = pre @ [SetWriteDeadline c' t None, Write c' (Sprintf_line name val (time_Unix t')) res]"
      "\<forall>e\<in>set pre. \<not> is_Write e" "r = sent name val (time_Unix t') res"
    from wr a have eq: "c = c'" "b = Sprintf_line name val (time_Unix t')" "res = (n, None)"
      by auto
    with a short show ?thesis
      by (simp add: sent_def filter_no_Write)
  qed
  show ?thesis unfolding p prod.case using main by blast
qed

theorem postOne_short_write_witness:
  "postOne ''load'' ''0.5'' connected_graphite short_world =
     (Returned (Some (Errorf ''load = 0.5: short write: 7/20'')), connected_graphite,
      short_world\<lparr>tick := 4, now := 1700000000000004000, trace :=
          [Call_postOne ''load'' ''0.5'',
           SetWriteDeadline (Conn 1) 1700000001000001000 None,
           Write (Conn 1) (''load 0.5 1700000000'' @ [CHR 0x0A]) (7, None)]\<rparr>)"
  using postOne_short_write[where g = connected_graphite and w = short_world
          and name = "''load''" and val = "''0.5''"]
  by (simp add: connected_graphite_def example_graphite_def example_world_def short_world_def run_defs)

text \<open>
  C9. The bytes a send hands to \<^verbatim>\<open>Write\<close> are the name, a space, the value, a space,
  the decimal numeral of the whole seconds of a clock reading taken during the send,
  and a newline; a send makes at most one write, and a send that returns nil has
  made exactly one, which took the whole line.
\<close>

theorem postOne_wire_line:
  "case postOne name val g w of (r, g', w') \<Rightarrow>
     (r = Returned None \<longrightarrow>
        (\<exists>c b. filter is_Write (new_events w w') = [Write c b (int (length b), None)])) \<and>
     (\<forall>c b res. Write c b res \<in> set (new_events w w') \<longrightarrow>
        (\<exists>t. b = name @ '' '' @ val @ '' '' @ fmt_d (time_Unix t) @ [CHR 0x0A]
           \<and> read_d (fmt_d (time_Unix t)) = time_Unix t
           \<and> now w \<le> t \<and> t \<le> now w'
           \<and> filter is_Write (new_events w w') = [Write c b res]))"
proof -
  obtain r g' w' where p: "postOne name val g w = (r, g', w')"
    by (cases "postOne name val g w") auto
  have main: "(r = Returned None \<longrightarrow>
        (\<exists>c b. filter is_Write (new_events w w') = [Write c b (int (length b), None)])) \<and>
     (\<forall>c b res. Write c b res \<in> set (new_events w w') \<longrightarrow>
        (\<exists>t. b = name @ '' '' @ val @ '' '' @ fmt_d (time_Unix t) @ [CHR 0x0A]
           \<and> read_d (fmt_d (time_Unix t)) = time_Unix t
           \<and> now w \<le> t \<and> t \<le> now w'
           \<and> filter is_Write (new_events w w') = [Write c b res]))"
    using postOne_outcomes[OF p]
  proof (elim disjE conjE exE)
    fix e assume "r = Returned (Some (Net e))" "\<forall>e\<in>set (new_events w w'). \<not> is_Write e"
    then show ?thesis by auto
  next
    fix pre c' t t' res'
    assume a: "new_events w w' = pre @ [SetWriteDeadline c' t None, Write c' (Sprintf_line name val (time_Unix t')) res']"
      "\<forall>e\<in>set pre. \<not> is_Write e" "r = sent name val (time_Unix t') res'"
      "now w \<le> t'" "t' \<le> now w'"
    have f: "filter is_Write (new_events w w') = [Write c' (Sprintf_line name val (time_Unix t')) res']"
      using a by (simp add: filter_no_Write)
    have 1: "r = Returned None \<longrightarrow>
        (\<exists>c b. filter is_Write (new_events w w') = [Write c b (int (length b), None)])"
      using a f by (cases res') (auto simp: sent_def split: option.splits if_splits)
    have 2: "\<exists>t. b = name @ '' '' @ val @ '' '' @ fmt_d (time_Unix t) @ [CHR 0x0A]
           \<and> read_d (fmt_d (time_Unix t)) = time_Unix t
           \<and> now w \<le> t \<and> t \<le> now w'
           \<and> filter is_Write (new_events w w') = [Write c b res]"
      if "Write c b res \<in> set (new_events w w')" for c b res
    proof -
      from that a have "c = c'" "b = Sprintf_line name val (time_Unix t')" "res = res'"
        by auto
      with a f show ?thesis
        by (intro exI[of _ t']) (simp add: Sprintf_line_def read_fmt_d)
    qed
    from 1 2 show ?thesis by blast
  qed
  show ?thesis unfolding p prod.case using main by blast
qed

theorem postOne_wire_line_witness:
  "postOne ''load'' ''0.5'' connected_graphite example_world =
     (Returned None, connected_graphite,
      example_world\<lparr>tick := 4, now := 1700000000000004000, trace :=
          [Call_postOne ''load'' ''0.5'',
           SetWriteDeadline (Conn 1) 1700000001000001000 None,
           Write (Conn 1) (''load 0.5 1700000000'' @ [CHR 0x0A]) (20, None)]\<rparr>)"
  using postOne_wire_line[where g = connected_graphite and w = example_world
          and name = "''load''" and val = "''0.5''"]
  by (simp add: connected_graphite_def example_graphite_def example_world_def run_defs)

subsection \<open>One pass\<close>

lemma attempted_append [simp]: "attempted (xs @ ys) = attempted xs @ attempted ys"
  by (induction xs rule: attempted.induct) auto

lemma logged_append [simp]: "logged (xs @ ys) = logged xs @ logged ys"
  by (induction xs rule: logged.induct) auto

lemma delivered_append [simp]: "delivered (xs @ ys) = delivered xs + delivered ys"
  by (induction xs rule: delivered.induct) auto

lemma postOne_step:
  assumes "postOne name val g w = (r, g', w')"
  shows "r \<noteq> Panic \<and> g' = g\<lparr>connection := connection g'\<rparr> \<and> now w \<le> now w' \<and>
         (connection g \<noteq> None \<longrightarrow> g' = g) \<and>
         (\<exists>evs. trace w' = trace w @ evs \<and> attempted evs = [name] \<and> logged evs = [] \<and>
                delivered evs = (if r = Returned None then 1 else 0))"
  using assms
  by (auto simp: postOne_def reconnect_def transmit_def prim_defs
           split: prod.splits option.splits if_splits sum.splits)

lemma connection_update_trans:
  "g2 = g1\<lparr>connection := c2\<rparr> \<Longrightarrow> g1 = g\<lparr>connection := c1\<rparr> \<Longrightarrow> g2 = g\<lparr>connection := c2\<rparr>"
  by simp

lemma range_vars_pass:
  assumes "range_vars kvs g w = (r, g', w')"
  shows "r = Returned () \<and> g' = g\<lparr>connection := connection g'\<rparr> \<and>
         (connection g \<noteq> None \<longrightarrow> g' = g) \<and> now w \<le> now w' \<and>
         (\<exists>evs. trace w' = trace w @ evs \<and> attempted evs = map fst kvs \<and>
                length (logged evs) + delivered evs = length kvs \<and>
                (\<forall>m\<in>set (logged evs). \<exists>name\<in>fst ` set kvs. \<exists>err.
                    m = Sprintf_log name (Error_text err)))"
  using assms
proof (induction kvs arbitrary: g w)
  case Nil
  then show ?case by auto
next
  case (Cons kv kvs)
  obtain name v where kv: "kv = (name, v)" by (cases kv) auto
  let ?val = "string_result w (tick w) v"
  obtain r1 g1 w1 where p: "postOne name ?val g (elapse w) = (r1, g1, w1)"
    by (cases "postOne name ?val g (elapse w)") auto
  from postOne_step[OF p] obtain evs1 where s1:
    "r1 \<noteq> Panic" "g1 = g\<lparr>connection := connection g1\<rparr>" "now (elapse w) \<le> now w1"
    "connection g \<noteq> None \<longrightarrow> g1 = g"
    "trace w1 = trace (elapse w) @ evs1" "attempted evs1 = [name]" "logged evs1 = []"
    "delivered evs1 = (if r1 = Returned None then 1 else 0)"
    by blast
  have nw: "now w \<le> now w1" using s1(3) by simp
  show ?case
  proof (cases r1)
    case Panic
    with s1 show ?thesis by simp
  next
    case (Returned eo)
    show ?thesis
    proof (cases eo)
      case None
      with Returned p kv Cons.prems
      have rec: "range_vars kvs g1 w1 = (r, g', w')"
        by (simp add: var_String_def)
      from Cons.IH[OF rec] obtain evs where ih:
        "r = Returned ()" "g' = g1\<lparr>connection := connection g'\<rparr>"
        "connection g1 \<noteq> None \<longrightarrow> g' = g1" "now w1 \<le> now w'"
        "trace w' = trace w1 @ evs" "attempted evs = map fst kvs"
        "length (logged evs) + delivered evs = length kvs"
        "\<forall>m\<in>set (logged evs). \<exists>name\<in>fst ` set kvs. \<exists>err. m = Sprintf_log name (Error_text err)"
        by blast
      have g: "g' = g\<lparr>connection := connection g'\<rparr>"
        by (rule connection_update_trans[OF ih(2) s1(2)])
      have keep: "connection g \<noteq> None \<longrightarrow> g' = g"
        using ih(3) s1(4) by auto
      have tr: "trace w' = trace w @ (evs1 @ evs)"
        using ih(5) s1(5) by simp
      have "attempted (evs1 @ evs) = map fst (kv # kvs)"
        using ih s1 kv by simp
      moreover have "length (logged (evs1 @ evs)) + delivered (evs1 @ evs) = length (kv # kvs)"
        using ih s1 None Returned by simp
      moreover have "\<forall>m\<in>set (logged (evs1 @ evs)). \<exists>name\<in>fst ` set (kv # kvs). \<exists>err.
           m = Sprintf_log name (Error_text err)"
        using ih s1 by auto
      ultimately show ?thesis
        using ih(1) g keep tr nw ih(4) by (intro conjI exI[of _ "evs1 @ evs"]) auto
    next
      case (Some err)
      let ?w2 = "log_Printf (Sprintf_log name (Error_text err)) w1"
      from Some Returned p kv Cons.prems
      have rec: "range_vars kvs g1 ?w2 = (r, g', w')"
        by (simp add: var_String_def)
      from Cons.IH[OF rec] obtain evs where ih:
        "r = Returned ()" "g' = g1\<lparr>connection := connection g'\<rparr>"
        "connection g1 \<noteq> None \<longrightarrow> g' = g1" "now ?w2 \<le> now w'"
        "trace w' = trace ?w2 @ evs" "attempted evs = map fst kvs"
        "length (logged evs) + delivered evs = length kvs"
        "\<forall>m\<in>set (logged evs). \<exists>name\<in>fst ` set kvs. \<exists>err. m = Sprintf_log name (Error_text err)"
        by blast
      let ?evs = "evs1 @ [Log (Sprintf_log name (Error_text err))] @ evs"
      have g: "g' = g\<lparr>connection := connection g'\<rparr>"
        by (rule connection_update_trans[OF ih(2) s1(2)])
      have keep: "connection g \<noteq> None \<longrightarrow> g' = g"
        using ih(3) s1(4) by auto
      have tr: "trace w' = trace w @ ?evs"
        using ih(5) s1(5) by (simp add: log_Printf_def)
      have nw': "now w \<le> now w'"
        using nw ih(4) by (simp add: log_Printf_def)
      have "attempted ?evs = map fst (kv # kvs)"
        using ih s1 kv by simp
      moreover have "length (logged ?evs) + delivered ?evs = length (kv # kvs)"
        using ih s1 Some Returned by simp
      moreover have "\<forall>m\<in>set (logged ?evs). \<exists>name\<in>fst ` set (kv # kvs). \<exists>err.
           m = Sprintf_log name (Error_text err)"
        using ih s1 kv by auto
      ultimately show ?thesis
        using ih(1) g keep tr nw' by (intro conjI exI[of _ ?evs]) auto
    qed
  qed
qed

lemma count_list_distinct:
  "distinct xs \<Longrightarrow> count_list xs x = (if x \<in> set xs then 1 else 0)"
  by (induction xs) auto

lemma pass_update:
  "g1 = g\<lparr>connection := c\<rparr> \<Longrightarrow> g' = g1\<lparr>lastPublish := t\<rparr> \<Longrightarrow>
   g' = g\<lparr>connection := c, lastPublish := t\<rparr> \<and> connection g' = c"
  by simp

lemma postAll_pass:
  assumes "postAll kvs g w = (r, g', w')"
  shows "r = Returned () \<and> g' = g\<lparr>connection := connection g', lastPublish := now w'\<rparr> \<and>
         (connection g \<noteq> None \<longrightarrow> connection g' = connection g) \<and> now w \<le> now w' \<and>
         (\<exists>evs. trace w' = trace w @ evs \<and> attempted evs = map fst kvs \<and>
                length (logged evs) + delivered evs = length kvs \<and>
                (\<forall>m\<in>set (logged evs). \<exists>name\<in>fst ` set kvs. \<exists>err.
                    m = Sprintf_log name (Error_text err)))"
proof -
  obtain r1 g1 w1 where rv: "range_vars kvs g w = (r1, g1, w1)"
    by (cases "range_vars kvs g w") auto
  from range_vars_pass[OF rv] obtain evs where a:
    "r1 = Returned ()" "g1 = g\<lparr>connection := connection g1\<rparr>"
    "connection g \<noteq> None \<longrightarrow> g1 = g" "now w \<le> now w1"
    "trace w1 = trace w @ evs" "attempted evs = map fst kvs"
    "length (logged evs) + delivered evs = length kvs"
    "\<forall>m\<in>set (logged evs). \<exists>name\<in>fst ` set kvs. \<exists>err. m = Sprintf_log name (Error_text err)"
    by blast
  from assms rv a(1) have res: "r = Returned ()" "g' = g1\<lparr>lastPublish := now (elapse w1)\<rparr>"
    "w' = elapse w1"
    by (auto simp: postAll_def time_Now_def)
  from pass_update[OF a(2) res(2)]
  have g': "g' = g\<lparr>connection := connection g', lastPublish := now w'\<rparr>"
    and c: "connection g' = connection g1"
    using res(3) by simp_all
  have keep: "connection g \<noteq> None \<longrightarrow> connection g' = connection g"
    using a(3) c by auto
  have nw: "now w \<le> now w'"
    using a(4) res(3) by simp
  have tr: "trace w' = trace w @ evs"
    using a(5) res(3) by simp
  from res(1) g' keep nw tr a(6,7,8) show ?thesis by blast
qed

text \<open>
  C3. A pass over the registry, in whatever order the \<^verbatim>\<open>range\<close> visits it, runs to
  its end whatever the sends return: it enters \<open>postOne\<close> for the names in that
  order, so once for every registered name and for no other name. The writes that
  took a whole line and the messages logged are together as many as the registered
  names, and every message logged carries a registered name and an error: a send
  that fails is logged, and the pass goes on. What was in the trace before stays,
  and so does what earlier sends of the pass added; the registry is not changed.
\<close>

theorem postAll_pass_complete:
  assumes "enumerates kvs (vars g)"
  shows "case postAll kvs g w of (r, g', w') \<Rightarrow>
     r = Returned () \<and> trace w' = trace w @ new_events w w' \<and> vars g' = vars g \<and>
     attempted (new_events w w') = map fst kvs \<and>
     (\<forall>name. count_list (attempted (new_events w w')) name = (if name \<in> dom (vars g) then 1 else 0)) \<and>
     length (logged (new_events w w')) + delivered (new_events w w') = card (dom (vars g)) \<and>
     (\<forall>m\<in>set (logged (new_events w w')). \<exists>name\<in>dom (vars g). \<exists>err.
         m = Sprintf_log name (Error_text err))"
proof -
  obtain r g' w' where p: "postAll kvs g w = (r, g', w')"
    by (cases "postAll kvs g w") auto
  from assms have d: "distinct (map fst kvs)" and m: "dom (vars g) = fst ` set kvs"
    using dom_map_of_conv_image_fst[of kvs] by (simp_all add: enumerates_def)
  from postAll_pass[OF p] obtain evs where a:
    "r = Returned ()" "g' = g\<lparr>connection := connection g', lastPublish := now w'\<rparr>"
    "trace w' = trace w @ evs" "attempted evs = map fst kvs"
    "length (logged evs) + delivered evs = length kvs"
    "\<forall>m\<in>set (logged evs). \<exists>name\<in>fst ` set kvs. \<exists>err. m = Sprintf_log name (Error_text err)"
    by blast
  have ne: "new_events w w' = evs"
    using a(3) by (simp add: new_events_def)
  have v: "vars g' = vars g"
    by (subst a(2)) simp
  have cnt: "count_list (map fst kvs) name = (if name \<in> dom (vars g) then 1 else 0)" for name
    using count_list_distinct[OF d, of name] m by simp
  have card: "card (dom (vars g)) = length kvs"
    using distinct_card[OF d] m by simp
  show ?thesis
    unfolding p prod.case ne using a(1,3,4,5,6) v cnt card m by simp
qed

lemma two_vars_enumerated:
  "enumerates [(''mem'', Var 2), (''load'', Var 1)] two_vars"
  by (auto simp: enumerates_def two_vars_def fun_eq_iff)

theorem postAll_pass_complete_witness:
  "enumerates [(''mem'', Var 2), (''load'', Var 1)] (vars (connected_graphite\<lparr>vars := two_vars\<rparr>))
   \<and> postAll [(''mem'', Var 2), (''load'', Var 1)] (connected_graphite\<lparr>vars := two_vars\<rparr>) flaky_world =
      (Returned (),
       connected_graphite\<lparr>vars := two_vars, lastPublish := 1700000000000011000\<rparr>,
       flaky_world\<lparr>tick := 11, now := 1700000000000011000, trace :=
          [Call_postOne ''mem'' ''0.5'',
           SetWriteDeadline (Conn 1) 1700000001000002000 None,
           Write (Conn 1) (''mem 0.5 1700000000'' @ [CHR 0x0A]) (0, Some (NetError ''broken pipe'')),
           Log ''g2g: mem: broken pipe'',
           Call_postOne ''load'' ''0.5'',
           SetWriteDeadline (Conn 1) 1700000001000007000 None,
           Write (Conn 1) (''load 0.5 1700000000'' @ [CHR 0x0A]) (20, None)]\<rparr>)"
proof -
  have e: "enumerates [(''mem'', Var 2), (''load'', Var 1)] (vars (connected_graphite\<lparr>vars := two_vars\<rparr>))"
    using two_vars_enumerated by simp
  have p: "postAll [(''mem'', Var 2), (''load'', Var 1)] (connected_graphite\<lparr>vars := two_vars\<rparr>) flaky_world =
      (Returned (),
       connected_graphite\<lparr>vars := two_vars, lastPublish := 1700000000000011000\<rparr>,
       flaky_world\<lparr>tick := 11, now := 1700000000000011000, trace :=
          [Call_postOne ''mem'' ''0.5'',
           SetWriteDeadline (Conn 1) 1700000001000002000 None,
           Write (Conn 1) (''mem 0.5 1700000000'' @ [CHR 0x0A]) (0, Some (NetError ''broken pipe'')),
           Log ''g2g: mem: broken pipe'',
           Call_postOne ''load'' ''0.5'',
           SetWriteDeadline (Conn 1) 1700000001000007000 None,
           Write (Conn 1) (''load 0.5 1700000000'' @ [CHR 0x0A]) (20, None)]\<rparr>)"
    by (simp add: postAll_def connected_graphite_def example_graphite_def example_world_def
        flaky_world_def run_defs)
  from postAll_pass_complete[OF e, where w = flaky_world] e p show ?thesis
    by blast
qed

subsection \<open>Construction\<close>

text \<open>
  C1. \<open>NewGraphite\<close> reads the clock and dials the endpoint; the dial is the first
  thing it does to the network. If the dial fails, it returns the dial's error and no
  structure, and has done nothing else: the loop is not started. If the dial
  succeeds, it starts the loop and returns the structure with the given endpoint,
  interval and timeout, an empty registry, the connection the dial returned, and as
  \<open>lastPublish\<close> the clock reading it took.
\<close>

theorem NewGraphite_fails_fast:
  "case NewGraphite ep iv tmo w of (res, w') \<Rightarrow>
     (case dial_result w (Suc (tick w)) of
        Inl e \<Rightarrow> res = Inl (Net e) \<and> new_events w w' = [Dial ep (Inl e)]
      | Inr c \<Rightarrow>
          res = Inr \<lparr>endpoint = ep, interval = iv, timeout = tmo,
                     lastPublish = now w + int (lapse w (tick w)),
                     connection = Some c, vars = Map.empty\<rparr>
          \<and> new_events w w' = [Dial ep (Inr c), Go_loop]
          \<and> now w \<le> now w + int (lapse w (tick w)) \<and> now w + int (lapse w (tick w)) \<le> now w')"
  by (cases "dial_result w (Suc (tick w))")
     (simp_all add: NewGraphite_def reconnect_def prim_defs new_events_def)

theorem NewGraphite_fails_fast_witness:
  "NewGraphite ''stats:2003'' 10000000000 1000000000 unreachable_world =
     (Inl (Net (NetError ''connection refused'')),
      unreachable_world\<lparr>tick := 2, now := 1700000000000002000,
        trace := [Dial ''stats:2003'' (Inl (NetError ''connection refused''))]\<rparr>)
   \<and> NewGraphite ''stats:2003'' 10000000000 1000000000 example_world =
     (Inr (connected_graphite\<lparr>lastPublish := 1700000000000001000\<rparr>),
      example_world\<lparr>tick := 2, now := 1700000000000002000,
        trace := [Dial ''stats:2003'' (Inr (Conn 1)), Go_loop]\<rparr>)"
  using NewGraphite_fails_fast[where w = unreachable_world and ep = "''stats:2003''"
          and iv = 10000000000 and tmo = 1000000000]
        NewGraphite_fails_fast[where w = example_world and ep = "''stats:2003''"
          and iv = 10000000000 and tmo = 1000000000]
  by (simp add: NewGraphite_def connected_graphite_def example_graphite_def example_world_def
        unreachable_world_def run_defs)

subsection \<open>Durations\<close>

lemma sint_duration_of_int:
  assumes "minDuration \<le> x" and "x \<le> maxDuration"
  shows "sint (word_of_int x :: duration) = x"
proof -
  have "signed_take_bit 63 x = x"
    using assms by (intro signed_take_bit_int_eq_self) (simp_all add: minDuration_def maxDuration_def)
  then show ?thesis by (simp add: signed_of_int)
qed

lemma sint_duration_range: "minDuration \<le> sint (d :: duration) \<and> sint d \<le> maxDuration"
  using sint_ge[of d] sint_lt[of d] by (simp add: minDuration_def maxDuration_def)

lemma sint_time_Sub:
  "sint (time_Sub t u) = max minDuration (min maxDuration (t - u))"
proof -
  have mm: "minDuration \<le> maxDuration" by (simp add: minDuration_def maxDuration_def)
  consider "maxDuration < t - u" | "t - u < minDuration"
    | "minDuration \<le> t - u" "t - u \<le> maxDuration"
    by linarith
  then show ?thesis
  proof cases
    case 1
    with mm show ?thesis by (simp add: time_Sub_def sint_duration_of_int)
  next
    case 2
    with mm show ?thesis by (simp add: time_Sub_def sint_duration_of_int)
  next
    case 3
    then show ?thesis
      using sint_duration_of_int[of "t - u"] by (simp add: time_Sub_def del: of_int_diff)
  qed
qed

subsection \<open>The loop\<close>

lemma nextPublishDelay_eq:
  "nextPublishDelay g w =
     (time_Sub (time_Add (lastPublish g) (interval g)) (now (elapse w)), elapse w)"
  by (simp add: nextPublishDelay_def time_Now_def)

lemma loop_select_Registration:
  "loop_select (Registration nv) g w =
     (Select, g\<lparr>vars := (vars g)(nv_name nv \<mapsto> nv_v nv)\<rparr>, elapse (elapse w))"
  by (simp add: loop_select_def nextPublishDelay_eq)

lemma loop_select_Timer:
  assumes "postAll kvs g (time_After (fst (nextPublishDelay g w)) (elapse w)) = (r, g', w')"
  shows "loop_select (Timer kvs) g w = (Select, g', w')"
  using assms postAll_pass[OF assms]
  by (simp add: loop_select_def nextPublishDelay_eq)

lemma time_After_simps [simp]:
  "trace (time_After d w) = trace w"
  "now (time_After d w) = now w + max 0 (sint d) + int (lapse w (tick w))"
  by (simp_all add: time_After_def elapse_def)

text \<open>
  C5, as the code has it. The delay is the difference of \<open>lastPublish + interval\<close> and
  the clock reading taken for it, as a duration: the difference itself when it fits
  in 64 bits, which it does at least when the reading is not before \<open>lastPublish\<close>
  and the difference is not below the smallest duration; the nearest duration
  otherwise. An iteration of the loop whose \<^verbatim>\<open>select\<close> takes the timer runs one
  pass: it enters \<open>postOne\<close> once for every name the \<^verbatim>\<open>range\<close> visits, however late
  the pass is, and ends by setting \<open>lastPublish\<close> to the clock reading taken after
  the last send, whatever the sends returned. When the delay is positive and the
  clock reading was not before \<open>lastPublish\<close>, the pass starts no earlier than
  \<open>lastPublish + interval\<close>.
\<close>

theorem cadence:
  "case nextPublishDelay g w of (d, w1) \<Rightarrow>
     sint d = max minDuration (min maxDuration (lastPublish g + sint (interval g) - now w1))
   \<and> (lastPublish g \<le> now w1 \<and> minDuration \<le> lastPublish g + sint (interval g) - now w1
        \<longrightarrow> sint d = lastPublish g + sint (interval g) - now w1)
   \<and> (case postAll kvs g (time_After d w1) of (r, g', w') \<Rightarrow>
        loop_select (Timer kvs) g w = (Select, g', w')
      \<and> attempted (new_events w w') = map fst kvs
      \<and> lastPublish g' = now w' \<and> now (time_After d w1) \<le> now w'
      \<and> (lastPublish g \<le> now w \<and> 0 < sint d
           \<longrightarrow> lastPublish g + sint (interval g) \<le> now (time_After d w1)))"
proof -
  let ?t = "now (elapse w)"
  let ?d = "time_Sub (time_Add (lastPublish g) (interval g)) ?t"
  let ?x = "lastPublish g + sint (interval g) - ?t"
  obtain r g' w' where p: "postAll kvs g (time_After ?d (elapse w)) = (r, g', w')"
    by (cases "postAll kvs g (time_After ?d (elapse w))") auto
  have d: "sint ?d = max minDuration (min maxDuration ?x)"
    by (simp add: sint_time_Sub time_Add_def)
  have exact: "sint ?d = ?x" if "lastPublish g \<le> ?t" "minDuration \<le> ?x"
  proof -
    have "?x \<le> sint (interval g)" using that by simp
    then have "?x \<le> maxDuration" using sint_duration_range[of "interval g"] by linarith
    with that d show ?thesis by simp
  qed
  have late: "lastPublish g + sint (interval g) \<le> now (time_After ?d (elapse w))"
    if "lastPublish g \<le> now w" "0 < sint ?d"
  proof -
    have le: "lastPublish g \<le> ?t" using that by simp
    have "minDuration \<le> ?x"
      using that d by (simp add: minDuration_def maxDuration_def max_def min_def split: if_splits)
    from exact[OF le this] have "sint ?d = ?x" .
    then show ?thesis using that by simp
  qed
  from postAll_pass[OF p] obtain evs where a:
    "g' = g\<lparr>connection := connection g', lastPublish := now w'\<rparr>"
    "now (time_After ?d (elapse w)) \<le> now w'"
    "trace w' = trace (time_After ?d (elapse w)) @ evs" "attempted evs = map fst kvs"
    by blast
  have lp: "lastPublish g' = now w'" by (subst a(1)) simp
  have att: "attempted (new_events w w') = map fst kvs"
    using a(3,4) by (simp add: new_events_def)
  have sel: "loop_select (Timer kvs) g w = (Select, g', w')"
    using p by (intro loop_select_Timer) (simp add: nextPublishDelay_eq)
  show ?thesis
    unfolding nextPublishDelay_eq prod.case p
    using d exact late lp att sel a(2) by blast
qed

theorem cadence_witness:
  "nextPublishDelay connected_graphite example_world =
     (9999999000, example_world\<lparr>tick := 1, now := 1700000000000001000\<rparr>)
   \<and> sint (9999999000 :: duration) = 1700000000000000000 + 10000000000 - 1700000000000001000
   \<and> loop_select (Timer []) connected_graphite example_world =
       (Select, connected_graphite\<lparr>lastPublish := 1700000010000002000\<rparr>,
        example_world\<lparr>tick := 3, now := 1700000010000002000\<rparr>)"
proof -
  have d: "nextPublishDelay connected_graphite example_world =
     (9999999000, example_world\<lparr>tick := 1, now := 1700000000000001000\<rparr>)"
    by (simp add: nextPublishDelay_eq time_Sub_def time_Add_def minDuration_def maxDuration_def
          connected_graphite_def example_graphite_def example_world_def elapse_def)
  have l: "loop_select (Timer []) connected_graphite example_world =
       (Select, connected_graphite\<lparr>lastPublish := 1700000010000002000\<rparr>,
        example_world\<lparr>tick := 3, now := 1700000010000002000\<rparr>)"
    unfolding loop_select_def d prod.case
    by (simp add: postAll_def time_After_def time_Now_def
          connected_graphite_def example_graphite_def example_world_def elapse_def)
  from cadence[where g = connected_graphite and w = example_world and kvs = "[]"] d l
  show ?thesis by simp
qed

text \<open>
  Against C5 as it is stated: with the smallest duration as interval and a clock
  reading a microsecond after \<open>lastPublish\<close>, the delay is the smallest duration, not
  \<open>lastPublish + interval - now\<close>, which is a microsecond below it.
\<close>

theorem delay_saturates:
  "sint (fst (nextPublishDelay backward_graphite example_world)) \<noteq>
     lastPublish backward_graphite + sint (interval backward_graphite)
       - now (snd (nextPublishDelay backward_graphite example_world))"
  by (simp add: nextPublishDelay_eq time_Sub_def time_Add_def minDuration_def maxDuration_def
        backward_graphite_def connected_graphite_def example_graphite_def example_world_def elapse_def)

lemma loop_select_Shutdown:
  "loop_select Shutdown_request g w =
     (case connection g of
        None \<Rightarrow> (Crashed, g, elapse (elapse w))
      | Some c \<Rightarrow> (Acking, g\<lparr>connection := None\<rparr>, conn_Close c (elapse (elapse w))))"
  by (simp add: loop_select_def nextPublishDelay_eq)

lemma pass_keeps_vars:
  "g1 = g\<lparr>connection := c, lastPublish := t\<rparr> \<Longrightarrow> vars g1 = vars g"
  by simp

lemma vars_update_trans:
  "g2 = g1\<lparr>vars := x\<rparr> \<Longrightarrow> g1 = g\<lparr>vars := y\<rparr> \<Longrightarrow> g2 = g\<lparr>vars := x\<rparr>"
  by simp

lemma loop_select_frame:
  assumes "loop_select sel g w = (c, g', w')"
  shows "vars g' = (case sel of Registration nv \<Rightarrow> (vars g)(nv_name nv \<mapsto> nv_v nv) | _ \<Rightarrow> vars g)"
proof (cases sel)
  case (Registration nv)
  with assms show ?thesis by (auto simp: loop_select_Registration)
next
  case (Timer kvs)
  obtain r g1 w1 where p: "postAll kvs g (time_After (fst (nextPublishDelay g w)) (elapse w)) = (r, g1, w1)"
    by (cases "postAll kvs g (time_After (fst (nextPublishDelay g w)) (elapse w))") auto
  from postAll_pass[OF p] have "g1 = g\<lparr>connection := connection g1, lastPublish := now w1\<rparr>"
    by blast
  then have "vars g1 = vars g" by (rule pass_keeps_vars)
  with loop_select_Timer[OF p] assms Timer show ?thesis by simp
next
  case Shutdown_request
  with assms show ?thesis by (auto simp: loop_select_Shutdown split: option.splits)
qed

lemma loop_vars:
  assumes "loop sels g w = (c, g', w')"
  shows "vars g' name = (case latest name (processed sels) of Some v \<Rightarrow> Some v | None \<Rightarrow> vars g name)"
  using assms
proof (induction sels arbitrary: g w)
  case Nil
  then show ?case by simp
next
  case (Cons sel sels)
  obtain c1 g1 w1 where s: "loop_select sel g w = (c1, g1, w1)"
    by (cases "loop_select sel g w") auto
  note f = loop_select_frame[OF s]
  show ?case
  proof (cases sel)
    case (Registration nv)
    with s have c1: "c1 = Select" by (simp add: loop_select_Registration)
    with s Cons.prems have "loop sels g1 w1 = (c, g', w')" by simp
    from Cons.IH[OF this] f Registration show ?thesis
      by (simp split: option.splits)
  next
    case (Timer kvs)
    obtain r g2 w2 where p: "postAll kvs g (time_After (fst (nextPublishDelay g w)) (elapse w)) = (r, g2, w2)"
      by (cases "postAll kvs g (time_After (fst (nextPublishDelay g w)) (elapse w))") auto
    from loop_select_Timer[OF p] s Timer have c1: "c1 = Select" by simp
    with s Cons.prems have "loop sels g1 w1 = (c, g', w')" by simp
    from Cons.IH[OF this] f Timer show ?thesis by (auto split: option.splits)
  next
    case Shutdown_request
    with s have "c1 \<noteq> Select" by (auto simp: loop_select_Shutdown split: option.splits)
    with s Cons.prems have "g' = g1" by (cases c1) auto
    with f Shutdown_request show ?thesis by simp
  qed
qed

lemma loop_registrations:
  "loop (map Registration nvs) g w = (c, g', w') \<Longrightarrow>
   c = Select \<and> trace w' = trace w \<and> g' = g\<lparr>vars := vars g'\<rparr>"
proof (induction nvs arbitrary: g w)
  case Nil
  then show ?case by simp
next
  case (Cons nv nvs)
  then have "loop (map Registration nvs) (g\<lparr>vars := (vars g)(nv_name nv \<mapsto> nv_v nv)\<rparr>)
               (elapse (elapse w)) = (c, g', w')"
    by (simp add: loop_select_Registration)
  from Cons.IH[OF this] have a: "c = Select" "trace w' = trace (elapse (elapse w))"
    "g' = g\<lparr>vars := (vars g)(nv_name nv \<mapsto> nv_v nv)\<rparr>\<lparr>vars := vars g'\<rparr>"
    by blast+
  have "g' = g\<lparr>vars := vars g'\<rparr>"
    by (rule vars_update_trans[OF a(3) refl])
  with a(1,2) show ?case by simp
qed

lemma processed_registrations: "processed (map Registration nvs) = nvs"
  by (induction nvs) auto

text \<open>
  C4. After the loop has run on any choices of its \<^verbatim>\<open>select\<close>s, the registry maps
  every name to the value of the most recent registration under that name that the
  loop received, and a name under which it received none to what the registry held
  before: a registration overwrites, and no entry is ever removed. Receiving
  registrations, however many and under whatever names, leaves the loop in its
  \<^verbatim>\<open>select\<close> and changes nothing but the registry: no error, no message logged.
\<close>

theorem registration_last_write_wins:
  "case loop sels g w of (c, g', w') \<Rightarrow>
     (\<forall>name. vars g' name =
        (case latest name (processed sels) of Some v \<Rightarrow> Some v | None \<Rightarrow> vars g name))
   \<and> dom (vars g) \<subseteq> dom (vars g')
   \<and> (\<forall>nvs. sels = map Registration nvs \<longrightarrow>
         c = Select \<and> processed sels = nvs \<and> trace w' = trace w \<and> g' = g\<lparr>vars := vars g'\<rparr>)"
proof -
  obtain c g' w' where l: "loop sels g w = (c, g', w')"
    by (cases "loop sels g w") auto
  have v: "vars g' name =
        (case latest name (processed sels) of Some v \<Rightarrow> Some v | None \<Rightarrow> vars g name)" for name
    by (rule loop_vars[OF l])
  have "dom (vars g) \<subseteq> dom (vars g')"
  proof
    fix name assume "name \<in> dom (vars g)"
    then show "name \<in> dom (vars g')"
      using v[of name] by (auto split: option.splits)
  qed
  moreover have "c = Select \<and> processed sels = nvs \<and> trace w' = trace w \<and> g' = g\<lparr>vars := vars g'\<rparr>"
    if "sels = map Registration nvs" for nvs
    using loop_registrations[of nvs g w c g' w'] l that by (simp add: processed_registrations)
  ultimately show ?thesis
    unfolding l prod.case using v by blast
qed

theorem registration_last_write_wins_witness:
  "loop [Registration (NamedVar ''load'' (Var 1)), Registration (NamedVar ''mem'' (Var 3)),
         Registration (NamedVar ''load'' (Var 2))] connected_graphite example_world =
     (Select,
      connected_graphite\<lparr>vars := [''load'' \<mapsto> Var 1, ''mem'' \<mapsto> Var 3, ''load'' \<mapsto> Var 2]\<rparr>,
      example_world\<lparr>tick := 6, now := 1700000000000006000\<rparr>)
   \<and> [''load'' \<mapsto> Var 1, ''mem'' \<mapsto> Var 3, ''load'' \<mapsto> Var 2] ''load'' = Some (Var 2)"
  using registration_last_write_wins[where g = connected_graphite and w = example_world
     and sels = "[Registration (NamedVar ''load'' (Var 1)), Registration (NamedVar ''mem'' (Var 3)),
         Registration (NamedVar ''load'' (Var 2))]"]
  by (simp add: loop_select_Registration connected_graphite_def example_graphite_def
        example_world_def elapse_def)

subsection \<open>The system\<close>

lemma coordinate_Registration:
  "coordinate (Registration nv) s =
     s\<lparr>handle := (handle s)\<lparr>vars := (vars (handle s))(nv_name nv \<mapsto> nv_v nv)\<rparr>,
       env := elapse (elapse (env s)), coordinator := Select\<rparr>"
  by (simp add: coordinate_def loop_select_Registration)

lemma coordinate_Timer:
  "\<exists>g' w'. coordinate (Timer kvs) s = s\<lparr>handle := g', env := w', coordinator := Select\<rparr>
     \<and> g' = (handle s)\<lparr>connection := connection g', lastPublish := now w'\<rparr>
     \<and> (connection (handle s) \<noteq> None \<longrightarrow> connection g' = connection (handle s))"
proof -
  let ?w = "time_After (fst (nextPublishDelay (handle s) (env s))) (elapse (env s))"
  obtain r g' w' where p: "postAll kvs (handle s) ?w = (r, g', w')"
    by (cases "postAll kvs (handle s) ?w") auto
  from loop_select_Timer[OF p] postAll_pass[OF p] show ?thesis
    by (auto simp: coordinate_def)
qed

lemma step_Timer_fires:
  assumes "step (Timer_fires kvs) s = Some s'"
  shows "coordinator s = Select \<and>
     (\<exists>g' w'. s' = s\<lparr>handle := g', env := w', coordinator := Select\<rparr>
        \<and> g' = (handle s)\<lparr>connection := connection g', lastPublish := now w'\<rparr>
        \<and> (connection (handle s) \<noteq> None \<longrightarrow> connection g' = connection (handle s)))"
proof -
  from assms have sel: "coordinator s = Select" and s': "s' = coordinate (Timer kvs) s"
    by (auto split: if_splits)
  from coordinate_Timer[of kvs s] sel show ?thesis
    unfolding s' by blast
qed

lemma coordinate_Shutdown:
  "connection (handle s) = Some c \<Longrightarrow>
   coordinate Shutdown_request s =
     s\<lparr>handle := (handle s)\<lparr>connection := None\<rparr>,
       env := conn_Close c (elapse (elapse (env s))), coordinator := Acking\<rparr>"
  by (simp add: coordinate_def loop_select_Shutdown)

lemma step_inv:
  assumes "sys_inv c s" and "step a s = Some s'"
  shows "sys_inv c s'"
proof (cases a)
  case (Call_Register nv)
  with assms show ?thesis by (auto simp: sys_inv_def closed_last_def split: coord.splits)
next
  case Call_Shutdown
  with assms show ?thesis by (auto simp: sys_inv_def closed_last_def split: coord.splits if_splits)
next
  case (Recv_registration nv)
  with assms show ?thesis
    by (auto simp: sys_inv_def coordinate_Registration split: if_splits)
next
  case (Timer_fires kvs)
  from coordinate_Timer[of kvs s] obtain g' w' where
    t: "coordinate (Timer kvs) s = s\<lparr>handle := g', env := w', coordinator := Select\<rparr>"
      "connection (handle s) \<noteq> None \<longrightarrow> connection g' = connection (handle s)"
    by blast
  from assms(2) Timer_fires have sel: "coordinator s = Select" and s': "s' = coordinate (Timer kvs) s"
    by (auto split: if_splits)
  from assms(1) sel have i: "connection (handle s) = Some c"
    "stopper s = Not_called \<or> stopper s = Sending_request"
    by (auto simp: sys_inv_def)
  from t(2) i(1) have "connection g' = Some c" by simp
  with i(2) show ?thesis
    unfolding s' t(1) by (simp add: sys_inv_def)
next
  case Recv_shutdown
  with assms have sel: "coordinator s = Select" "connection (handle s) = Some c"
    by (auto simp: sys_inv_def split: if_splits)
  with assms Recv_shutdown show ?thesis
    by (auto simp: sys_inv_def closed_last_def coordinate_Shutdown conn_Close_def split: if_splits)
next
  case Send_ack
  with assms show ?thesis by (auto simp: sys_inv_def closed_last_def split: if_splits)
qed

lemma run_inv:
  "sys_inv c s \<Longrightarrow> run acts s = Some s' \<Longrightarrow> sys_inv c s'"
proof (induction acts arbitrary: s)
  case Nil
  then show ?case by simp
next
  case (Cons a acts)
  then obtain s1 where "step a s = Some s1" "run acts s1 = Some s'"
    by (auto split: option.splits)
  with Cons show ?case using step_inv by blast
qed

lemma step_off_select:
  assumes "coordinator s \<noteq> Select" and "step a s = Some s'"
  shows "coordinator s' \<noteq> Select \<and> env s' = env s \<and> handle s' = handle s \<and>
         returned s' = returned s \<and> set (blocked s) \<subseteq> set (blocked s') \<and>
         (coordinator s = Exited \<longrightarrow> coordinator s' = Exited)"
  using assms by (cases a) (auto split: if_splits)

lemma run_off_select:
  "coordinator s \<noteq> Select \<Longrightarrow> run acts s = Some s' \<Longrightarrow>
   coordinator s' \<noteq> Select \<and> env s' = env s \<and> handle s' = handle s \<and>
   returned s' = returned s \<and> set (blocked s) \<subseteq> set (blocked s') \<and>
   (coordinator s = Exited \<longrightarrow> coordinator s' = Exited)"
proof (induction acts arbitrary: s)
  case Nil
  then show ?case by simp
next
  case (Cons a acts)
  then obtain s1 where s1: "step a s = Some s1" "run acts s1 = Some s'"
    by (auto split: option.splits)
  from step_off_select[OF Cons.prems(1) s1(1)] Cons.IH[OF _ s1(2)]
  show ?case by auto
qed

lemma Shutdown_can_return:
  assumes "coordinator s = Select" and "connection (handle s) = Some c"
    and "stopper s = Not_called"
  shows "\<exists>s'. run [Call_Shutdown, Recv_shutdown, Send_ack] s = Some s' \<and>
              stopper s' = Shutdown_returned"
  using assms by (simp add: coordinate_Shutdown)

text \<open>
  C2. Take the system at any state where the loop is in its \<^verbatim>\<open>select\<close> with the
  connection \<open>c\<close> and \<open>Shutdown\<close> has not been called, and let it run in any way:
  callers calling, registrations received, passes made. Once the call of \<open>Shutdown\<close>
  has returned, the loop has returned, the structure holds no connection, and the
  last thing done to the world is closing \<open>c\<close>. Whatever happens afterwards, the loop
  stays returned and the world and the structure stay as they are: no pass, no
  write, no dial; the timer's case in particular can no longer be taken.
\<close>

theorem shutdown_closes_and_stops:
  assumes "coordinator s0 = Select" and "connection (handle s0) = Some c"
    and "stopper s0 = Not_called" and "run acts s0 = Some s"
    and "stopper s = Shutdown_returned"
  shows "coordinator s = Exited \<and> connection (handle s) = None \<and>
         trace (env s) \<noteq> [] \<and> last (trace (env s)) = Close c \<and>
         (\<forall>kvs. step (Timer_fires kvs) s = None) \<and>
         (\<forall>more s'. run more s = Some s' \<longrightarrow>
            coordinator s' = Exited \<and> env s' = env s \<and> handle s' = handle s)"
proof -
  from assms(1-3) have "sys_inv c s0" by (simp add: sys_inv_def)
  from run_inv[OF this assms(4)] assms(5)
  have ex: "coordinator s = Exited" and cl: "closed_last c s"
    by (auto simp: sys_inv_def split: coord.splits)
  have "coordinator s' = Exited \<and> env s' = env s \<and> handle s' = handle s"
    if "run more s = Some s'" for more s'
    using run_off_select[OF _ that] ex by simp
  with ex cl show ?thesis by (simp add: closed_last_def)
qed

theorem shutdown_closes_and_stops_witness:
  "coordinator live_system = Select \<and> connection (handle live_system) = Some (Conn 1)
   \<and> stopper live_system = Not_called
   \<and> run [Call_Shutdown, Recv_shutdown, Send_ack, Call_Register load_var] live_system
       = Some stopped_system
   \<and> stopper stopped_system = Shutdown_returned
   \<and> last (trace (env stopped_system)) = Close (Conn 1)"
proof -
  have r: "run [Call_Shutdown, Recv_shutdown, Send_ack, Call_Register load_var] live_system
       = Some stopped_system"
    by (simp add: live_system_def started_def stopped_system_def coordinate_def
          loop_select_Shutdown connected_graphite_def example_graphite_def example_world_def
          conn_Close_def elapse_def emit_def)
  have i: "coordinator live_system = Select" "connection (handle live_system) = Some (Conn 1)"
    "stopper live_system = Not_called" "stopper stopped_system = Shutdown_returned"
    by (simp_all add: live_system_def started_def stopped_system_def connected_graphite_def)
  from shutdown_closes_and_stops[OF i(1,2,3) r i(4)] i r show ?thesis by simp
qed

lemma step_Register_returns:
  assumes "step a s = Some s'" and "returned s' \<noteq> returned s"
  shows "coordinator s = Select \<and>
         (\<exists>nv\<in>set (blocked s). a = Recv_registration nv \<and> returned s' = returned s @ [nv] \<and>
            blocked s' = remove1 nv (blocked s) \<and>
            vars (handle s') = (vars (handle s))(nv_name nv \<mapsto> nv_v nv))"
proof (cases a)
  case (Recv_registration nv)
  with assms show ?thesis
    by (auto simp: coordinate_Registration split: if_splits)
next
  case (Timer_fires kvs)
  with assms(1) have "step (Timer_fires kvs) s = Some s'" by simp
  from step_Timer_fires[OF this] assms(2) show ?thesis by auto
next
  case Recv_shutdown
  with assms show ?thesis
    by (auto simp: coordinate_def split: if_splits prod.splits)
qed (insert assms, auto split: if_splits)

text \<open>
  C10, as the code has it. A call of \<open>Register\<close> can always be made and has no error
  path: it blocks in its send. It returns only by a \<^verbatim>\<open>select\<close> of the loop receiving
  its message, the step that also writes the registration into the registry; so it
  waits for the coordinator. Once the loop has left its \<^verbatim>\<open>select\<close> for good (it is
  acknowledging a shutdown, or has returned, or has panicked), no call returns any
  more: the calls that are blocked stay blocked whatever happens, and the registry
  does not change.
\<close>

theorem Register_is_a_rendezvous:
  "(step (Call_Register nv) s = Some (s\<lparr>blocked := blocked s @ [nv]\<rparr>))
   \<and> (\<forall>a s'. step a s = Some s' \<and> returned s' \<noteq> returned s \<longrightarrow>
         coordinator s = Select \<and>
         (\<exists>nv\<in>set (blocked s). a = Recv_registration nv \<and> returned s' = returned s @ [nv] \<and>
            blocked s' = remove1 nv (blocked s) \<and>
            vars (handle s') = (vars (handle s))(nv_name nv \<mapsto> nv_v nv)))
   \<and> (\<forall>acts s'. coordinator s \<noteq> Select \<and> run acts s = Some s' \<longrightarrow>
         coordinator s' \<noteq> Select \<and> returned s' = returned s \<and>
         set (blocked s) \<subseteq> set (blocked s') \<and> vars (handle s') = vars (handle s))"
proof -
  have "coordinator s' \<noteq> Select \<and> returned s' = returned s \<and>
         set (blocked s) \<subseteq> set (blocked s') \<and> vars (handle s') = vars (handle s)"
    if "coordinator s \<noteq> Select" "run acts s = Some s'" for acts s'
    using run_off_select[OF that] by simp
  then show ?thesis
    using step_Register_returns[of _ s] by (simp del: step.simps(3-6)) blast
qed

theorem Register_is_a_rendezvous_witness:
  "run [Call_Register load_var, Recv_registration load_var] live_system =
     Some (live_system\<lparr>handle := connected_graphite\<lparr>vars := [''load'' \<mapsto> Var 1]\<rparr>,
             env := example_world\<lparr>tick := 2, now := 1700000000000002000\<rparr>,
             returned := [load_var]\<rparr>)
   \<and> coordinator stopped_system \<noteq> Select
   \<and> run [Call_Register load_var] stopped_system =
       Some (stopped_system\<lparr>blocked := [load_var, load_var]\<rparr>)"
proof -
  have 1: "run [Call_Register load_var, Recv_registration load_var] live_system =
     Some (live_system\<lparr>handle := connected_graphite\<lparr>vars := [''load'' \<mapsto> Var 1]\<rparr>,
             env := example_world\<lparr>tick := 2, now := 1700000000000002000\<rparr>,
             returned := [load_var]\<rparr>)"
    by (simp add: live_system_def started_def coordinate_Registration load_var_def
          connected_graphite_def example_graphite_def example_world_def elapse_def)
  have 2: "coordinator stopped_system \<noteq> Select"
    "run [Call_Register load_var] stopped_system =
       Some (stopped_system\<lparr>blocked := [load_var, load_var]\<rparr>)"
    by (simp_all add: stopped_system_def)
  from Register_is_a_rendezvous[where s = stopped_system and nv = load_var] 1 2
  show ?thesis by simp
qed

text \<open>
  Against C10 as it is stated: after a \<open>Shutdown\<close> that has returned, a call of
  \<open>Register\<close> is blocked in its send, and no run of the system makes it return.
\<close>

theorem Register_after_Shutdown_never_returns:
  "run [Call_Shutdown, Recv_shutdown, Send_ack, Call_Register load_var] live_system
     = Some stopped_system
   \<and> blocked stopped_system = [load_var] \<and> returned stopped_system = []
   \<and> \<not> (\<exists>acts s. run acts stopped_system = Some s \<and> load_var \<in> set (returned s))"
proof -
  have r: "run [Call_Shutdown, Recv_shutdown, Send_ack, Call_Register load_var] live_system
       = Some stopped_system"
    by (simp add: live_system_def started_def stopped_system_def coordinate_def
          loop_select_Shutdown connected_graphite_def example_graphite_def example_world_def
          conn_Close_def elapse_def emit_def)
  have off: "coordinator stopped_system \<noteq> Select" by (simp add: stopped_system_def)
  have "load_var \<notin> set (returned s)" if "run acts stopped_system = Some s" for acts s
    using run_off_select[OF off that] by (simp add: stopped_system_def)
  with r show ?thesis by (auto simp: stopped_system_def)
qed

subsection \<open>The clock and \<open>lastPublish\<close>\<close>

text \<open>\<open>lastPublish\<close> is never ahead of the clock: not after \<open>NewGraphite\<close>, and not
  after any step of the system.\<close>

lemma NewGraphite_lastPublish:
  "NewGraphite ep iv tmo w = (Inr g, w') \<Longrightarrow> lastPublish g \<le> now w'"
  by (auto simp: NewGraphite_def reconnect_def prim_defs split: sum.splits)

lemma step_lastPublish:
  assumes "lastPublish (handle s) \<le> now (env s)" and "step a s = Some s'"
  shows "lastPublish (handle s') \<le> now (env s')"
proof (cases a)
  case (Timer_fires kvs)
  with assms(2) have "step (Timer_fires kvs) s = Some s'" by simp
  from step_Timer_fires[OF this] obtain g' w' where
    t: "s' = s\<lparr>handle := g', env := w', coordinator := Select\<rparr>"
       "g' = (handle s)\<lparr>connection := connection g', lastPublish := now w'\<rparr>"
    by blast
  have "lastPublish g' = now w'" by (subst t(2)) simp
  then show ?thesis unfolding t(1) by simp
next
  case Recv_shutdown
  with assms show ?thesis
    by (auto simp: coordinate_def loop_select_Shutdown conn_Close_def split: if_splits option.splits)
qed (insert assms, auto simp: coordinate_Registration split: if_splits)

end
